theory Spec2Isabelle
  imports Main
begin

text \<open>
  The chat server of the repository: the store of accounts and messages with its two
  backing files, the hub that fans broadcasts out to the send queues of the live
  connections, the worker pool's job queue, and the packet handlers of the server. Each
  goroutine's step is a function on the state all of them share, so a theorem about a
  step holds wherever the scheduler puts the step. What a step takes from outside (clock,
  random numbers, the order of a map walk, the outcome of a file write) is an argument.
\<close>

section \<open>Strings and time\<close>

text \<open>
  A Go string is a sequence of bytes, modelled as \<^typ>\<open>string\<close>.
  \<open>strings.Contains(s, sub)\<close> compares bytes: \<open>sub\<close> occurs in \<open>s\<close> at some offset.
\<close>

fun contains :: "string \<Rightarrow> string \<Rightarrow> bool" where
  "contains [] sub = (sub = [])"
| "contains (c # cs) sub = (take (length sub) (c # cs) = sub \<or> contains cs sub)"

text \<open>
  UTF-8 as package \<open>unicode/utf8\<close> decodes it. \<open>runeLen s\<close> is the number of bytes of the
  encoded rune at the head of \<open>s\<close>, and 0 when the bytes there encode none (a byte that
  cannot start a rune, a missing or wrong continuation byte, an overlong form, a
  surrogate, a value above U+10FFFF).
\<close>

definition cont :: "char \<Rightarrow> bool" where
  "cont c = (128 \<le> (of_char c :: nat) \<and> (of_char c :: nat) \<le> 191)"

definition second :: "nat \<Rightarrow> char \<Rightarrow> bool" where
  "second b c =
     (let lo = (if b = 224 then 160 else if b = 240 then 144 else 128);
          hi = (if b = 237 then 159 else if b = 244 then 143 else 191)
      in lo \<le> (of_char c :: nat) \<and> (of_char c :: nat) \<le> hi)"

fun runeLen :: "string \<Rightarrow> nat" where
  "runeLen [] = 0"
| "runeLen (c # s) =
     (let b = (of_char c :: nat) in
      if b < 128 then 1
      else if 194 \<le> b \<and> b \<le> 223 then
        (case s of c1 # _ \<Rightarrow> if cont c1 then 2 else 0 | _ \<Rightarrow> 0)
      else if 224 \<le> b \<and> b \<le> 239 then
        (case s of c1 # c2 # _ \<Rightarrow> if second b c1 \<and> cont c2 then 3 else 0 | _ \<Rightarrow> 0)
      else if 240 \<le> b \<and> b \<le> 244 then
        (case s of c1 # c2 # c3 # _ \<Rightarrow> if second b c1 \<and> cont c2 \<and> cont c3 then 4 else 0
         | _ \<Rightarrow> 0)
      else 0)"

text \<open>
  What is left of a Go string once \<open>encoding/json\<close> has written it and read it back: the
  encoder writes every byte that starts no rune as the escape of U+FFFD, which the decoder
  reads as the three bytes EF BF BD; every encoded rune comes back as it was.
\<close>

function toValidUTF8 :: "string \<Rightarrow> string" where
  "toValidUTF8 [] = []"
| "toValidUTF8 (c # s) =
     (let n = runeLen (c # s) in
      if n = 0 then [CHR 0xEF, CHR 0xBF, CHR 0xBD] @ toValidUTF8 s
      else take n (c # s) @ toValidUTF8 (drop n (c # s)))"
  by pat_completeness auto
termination
  by (relation "measure length") auto

function validUTF8 :: "string \<Rightarrow> bool" where
  "validUTF8 [] = True"
| "validUTF8 (c # s) =
     (let n = runeLen (c # s) in if n = 0 then False else validUTF8 (drop n (c # s)))"
  by pat_completeness auto
termination
  by (relation "measure length") auto

text \<open>\<open>fmt.Sprintf("%d", n)\<close> and \<open>fmt.Sprintf("%04x", n)\<close>.\<close>

fun decimal_nat :: "nat \<Rightarrow> string" where
  "decimal_nat n =
     (if n < 10 then [char_of (48 + n)] else decimal_nat (n div 10) @ [char_of (48 + n mod 10)])"

definition decimal :: "int \<Rightarrow> string" where
  "decimal i = (if i < 0 then CHR ''-'' # decimal_nat (nat (- i)) else decimal_nat (nat i))"

definition hexDigit :: "nat \<Rightarrow> char" where
  "hexDigit d = (if d < 10 then char_of (48 + d) else char_of (87 + d))"

fun hex_nat :: "nat \<Rightarrow> string" where
  "hex_nat n = (if n < 16 then [hexDigit n] else hex_nat (n div 16) @ [hexDigit (n mod 16)])"

definition hex04 :: "nat \<Rightarrow> string" where
  "hex04 n = (let h = hex_nat n in replicate (4 - length h) (CHR ''0'') @ h)"

text \<open>
  A \<open>time.Time\<close> is the instant it denotes, in nanoseconds since the Unix epoch;
  \<open>Before\<close> and \<open>After\<close> compare instants. A \<open>*time.Time\<close> is an option. The zero
  \<open>time.Time\<close> is the first instant of the year 1. \<open>Time.MarshalJSON\<close> writes the instant
  with its nanoseconds when its year is within 0 to 9999, and returns an error otherwise;
  \<open>Time.UnmarshalJSON\<close> reads the instant back.
\<close>

type_synonym time = int

definition Before :: "time \<Rightarrow> time \<Rightarrow> bool" where
  "Before t u = (t < u)"

definition After :: "time \<Rightarrow> time \<Rightarrow> bool" where
  "After t u = (t > u)"

definition zeroTime :: time where
  "zeroTime = - 62135596800 * 1000000000"

definition jsonTimeOk :: "time \<Rightarrow> bool" where
  "jsonTimeOk t = (- 62167219200 * 1000000000 \<le> t \<and> t < 253402300800 * 1000000000)"

section \<open>Records of the store and the protocol\<close>

record User =
  ID :: string
  Username :: string
  PasswordHash :: string
  CreatedAt :: time

text \<open>\<open>protocol.StoredMessage\<close>; its fields carry the prefix \<open>m\<close> where \<open>User\<close> has the name.\<close>

record StoredMessage =
  mID :: string
  mUserID :: string
  mUsername :: string
  Content :: string
  Timestamp :: time

datatype store_error =
    UsernameTaken string
  | UserNotFound string
  | IncorrectPassword
  | MarshalError
  | WriteError
  | MkdirError
  | ParseUsersError
  | ParseMessagesError

text \<open>
  The functions of the standard library whose tables are not part of the repository are
  arguments of the model: the SHA-256 hex digest behind \<open>hashPassword\<close>, and
  \<open>strings.ToLower\<close> and \<open>strings.EqualFold\<close>, which map and fold the case of every
  Unicode letter. What is proved for every \<open>lib\<close> holds for the library of Go.
\<close>

record lib =
  sha256hex :: "string \<Rightarrow> string"
  ToLower :: "string \<Rightarrow> string"
  EqualFold :: "string \<Rightarrow> string \<Rightarrow> bool"

text \<open>
  The content of a backing file is what \<open>json.Unmarshal\<close> makes of its bytes, for each of
  the two slice types the store reads: the list it decodes, or \<open>None\<close> where it returns an
  error. Records held through pointers are never nil here: the store keeps the records
  that \<open>RegisterUser\<close> and \<open>handleChat\<close> allocate and the ones it reads from its own files (a
  file with a \<open>null\<close> entry is outside the model).
\<close>

record content =
  asUsers :: "User list option"
  asMessages :: "StoredMessage list option"

text \<open>
  \<open>json.MarshalIndent\<close> on the two slices. It fails on a time it cannot write. The bytes it
  returns decode to the records it was given, with every string as JSON leaves it; read
  as the other slice type, they give the fields whose keys (\<open>id\<close> and \<open>username\<close>) both
  record types have, and zero values for the rest.
\<close>

definition jsonUser :: "User \<Rightarrow> User" where
  "jsonUser u =
     \<lparr>ID = toValidUTF8 (ID u), Username = toValidUTF8 (Username u),
      PasswordHash = toValidUTF8 (PasswordHash u), CreatedAt = CreatedAt u\<rparr>"

definition jsonMessage :: "StoredMessage \<Rightarrow> StoredMessage" where
  "jsonMessage m =
     \<lparr>mID = toValidUTF8 (mID m), mUserID = toValidUTF8 (mUserID m),
      mUsername = toValidUTF8 (mUsername m), Content = toValidUTF8 (Content m),
      Timestamp = Timestamp m\<rparr>"

definition userAsMessage :: "User \<Rightarrow> StoredMessage" where
  "userAsMessage u =
     \<lparr>mID = ID u, mUserID = [], mUsername = Username u, Content = [], Timestamp = zeroTime\<rparr>"

definition messageAsUser :: "StoredMessage \<Rightarrow> User" where
  "messageAsUser m =
     \<lparr>ID = mID m, Username = mUsername m, PasswordHash = [], CreatedAt = zeroTime\<rparr>"

definition marshalUsers :: "User list \<Rightarrow> content option" where
  "marshalUsers us =
     (if list_all (\<lambda>u. jsonTimeOk (CreatedAt u)) us
      then Some \<lparr>asUsers = Some (map jsonUser us),
                 asMessages = Some (map (userAsMessage \<circ> jsonUser) us)\<rparr>
      else None)"

definition marshalMessages :: "StoredMessage list \<Rightarrow> content option" where
  "marshalMessages ms =
     (if list_all (\<lambda>m. jsonTimeOk (Timestamp m)) ms
      then Some \<lparr>asUsers = Some (map (messageAsUser \<circ> jsonMessage) ms),
                 asMessages = Some (map jsonMessage ms)\<rparr>
      else None)"

text \<open>
  The directory \<open>dataDir\<close>: the contents of \<open>users.json\<close> and \<open>messages.json\<close>,
  \<open>None\<close> for a file that cannot be read.
\<close>

record dir =
  users_json :: "content option"
  messages_json :: "content option"

text \<open>
  What \<open>os.WriteFile\<close> does on one call: it writes the data, or it fails and leaves the
  file with some content of the system's choosing (the file is truncated on opening).
\<close>

datatype write_outcome = WriteOk | WriteFails "content option"

record Store =
  users :: "string \<rightharpoonup> User"
  byID :: "string \<rightharpoonup> User"
  messages :: "StoredMessage list"
  dataDir :: dir

text \<open>
  What a call reads from its environment: the two clock readings and the random number
  of \<open>RegisterUser\<close> (the clock reading of \<open>handleChat\<close> is \<open>now\<close> too), the orders in
  which \<open>range\<close> walks the \<open>users\<close> map and the \<open>online\<close> map, and the outcome of the
  file write.
\<close>

record env =
  id_nanos :: int
  id_rand :: nat
  now :: time
  range_users :: "string list"
  range_online :: "string list"
  wrote :: write_outcome

section \<open>The store\<close>

definition hashPassword :: "lib \<Rightarrow> string \<Rightarrow> string" where
  "hashPassword L pw = sha256hex L pw"

definition generateID :: "int \<Rightarrow> nat \<Rightarrow> string" where
  "generateID nanos r = decimal nanos @ ''-'' @ hex04 r"

definition WriteFile :: "write_outcome \<Rightarrow> content \<Rightarrow> content option \<Rightarrow> content option \<times> store_error option" where
  "WriteFile w data file =
     (case w of WriteOk \<Rightarrow> (Some data, None) | WriteFails rest \<Rightarrow> (rest, Some WriteError))"

text \<open>\<open>writeJSON\<close>, with the marshalled value \<open>json.MarshalIndent\<close> returned (or its error).\<close>

definition writeJSON :: "write_outcome \<Rightarrow> content option \<Rightarrow> content option \<Rightarrow> content option \<times> store_error option" where
  "writeJSON w marshalled file =
     (case marshalled of
        None \<Rightarrow> (file, Some MarshalError)
      | Some data \<Rightarrow> WriteFile w data file)"

text \<open>\<open>saveUsersLocked\<close> collects the accounts in the order \<open>order\<close> in which \<open>range\<close> walks the map.\<close>

definition saveUsersLocked :: "string list \<Rightarrow> write_outcome \<Rightarrow> Store \<Rightarrow> Store \<times> store_error option" where
  "saveUsersLocked order w s =
     (let us = List.map_filter (users s) order;
          (file, err) = writeJSON w (marshalUsers us) (users_json (dataDir s))
      in (s\<lparr>dataDir := (dataDir s)\<lparr>users_json := file\<rparr>\<rparr>, err))"

definition saveMessagesLocked :: "write_outcome \<Rightarrow> Store \<Rightarrow> Store \<times> store_error option" where
  "saveMessagesLocked w s =
     (let (file, err) = writeJSON w (marshalMessages (messages s)) (messages_json (dataDir s))
      in (s\<lparr>dataDir := (dataDir s)\<lparr>messages_json := file\<rparr>\<rparr>, err))"

text \<open>
  \<open>RegisterUser\<close> returns the pair of Go: the user (nil when the name is taken) and the error,
  which is the error of \<open>saveUsersLocked\<close> once the account is in the maps.
\<close>

definition RegisterUser ::
  "lib \<Rightarrow> env \<Rightarrow> string \<Rightarrow> string \<Rightarrow> Store \<Rightarrow> (User option \<times> store_error option) \<times> Store" where
  "RegisterUser L E username password s =
     (let key = ToLower L username in
      if users s key \<noteq> None then ((None, Some (UsernameTaken username)), s)
      else
        let u = \<lparr>ID = generateID (id_nanos E) (id_rand E), Username = username,
                 PasswordHash = hashPassword L password, CreatedAt = now E\<rparr>;
            s1 = s\<lparr>users := (users s)(key \<mapsto> u)\<rparr>;
            s2 = s1\<lparr>byID := (byID s1)(ID u \<mapsto> u)\<rparr>;
            (s3, err) = saveUsersLocked (range_users E) (wrote E) s2
        in ((Some u, err), s3))"

definition Authenticate :: "lib \<Rightarrow> string \<Rightarrow> string \<Rightarrow> Store \<Rightarrow> store_error + User" where
  "Authenticate L username password s =
     (case users s (ToLower L username) of
        None \<Rightarrow> Inl (UserNotFound username)
      | Some u \<Rightarrow>
          if PasswordHash u \<noteq> hashPassword L password then Inl IncorrectPassword else Inr u)"

definition SaveMessage :: "write_outcome \<Rightarrow> StoredMessage \<Rightarrow> Store \<Rightarrow> Store \<times> store_error option" where
  "SaveMessage w msg s = saveMessagesLocked w (s\<lparr>messages := messages s @ [msg]\<rparr>)"

text \<open>\<open>GetHistory\<close>; \<open>n\<close> and \<open>len\<close> are Go ints, and \<open>total - n\<close> is within \<open>0..total\<close> where it is computed.\<close>

definition GetHistory :: "int \<Rightarrow> Store \<Rightarrow> StoredMessage list" where
  "GetHistory n s =
     (let total = int (length (messages s)) in
      if n \<le> 0 \<or> n \<ge> total then messages s
      else drop (nat (total - n)) (messages s))"

text \<open>The loop of \<open>Search\<close>: each \<open>continue\<close> skips the message, the last line appends it.\<close>

fun Search_loop ::
  "lib \<Rightarrow> string \<Rightarrow> string \<Rightarrow> time option \<Rightarrow> time option \<Rightarrow> StoredMessage list \<Rightarrow> StoredMessage list \<Rightarrow> StoredMessage list" where
  "Search_loop L q u from to [] out = out"
| "Search_loop L q u from to (m # ms) out =
     (if q \<noteq> [] \<and> \<not> contains (ToLower L (Content m)) q then Search_loop L q u from to ms out
      else if u \<noteq> [] \<and> \<not> EqualFold L (mUsername m) u then Search_loop L q u from to ms out
      else if (case from of None \<Rightarrow> False | Some f \<Rightarrow> Before (Timestamp m) f)
        then Search_loop L q u from to ms out
      else if (case to of None \<Rightarrow> False | Some t \<Rightarrow> After (Timestamp m) t)
        then Search_loop L q u from to ms out
      else Search_loop L q u from to ms (out @ [m]))"

definition Search :: "lib \<Rightarrow> string \<Rightarrow> string \<Rightarrow> time option \<Rightarrow> time option \<Rightarrow> Store \<Rightarrow> StoredMessage list" where
  "Search L query username from to s =
     (let q = ToLower L query; u = ToLower L username
      in Search_loop L q u from to (messages s) [])"

text \<open>\<open>load\<close>: a file that cannot be read is skipped, a file that does not parse is an error.\<close>

definition load_user :: "lib \<Rightarrow> Store \<Rightarrow> User \<Rightarrow> Store" where
  "load_user L s u =
     (let s1 = s\<lparr>users := (users s)(ToLower L (Username u) \<mapsto> u)\<rparr>
      in s1\<lparr>byID := (byID s1)(ID u \<mapsto> u)\<rparr>)"

definition load :: "lib \<Rightarrow> Store \<Rightarrow> store_error + Store" where
  "load L s =
     (case (case users_json (dataDir s) of
              None \<Rightarrow> Inr s
            | Some data \<Rightarrow>
                (case asUsers data of
                   None \<Rightarrow> Inl ParseUsersError
                 | Some us \<Rightarrow> Inr (foldl (load_user L) s us))) of
        Inl e \<Rightarrow> Inl e
      | Inr s1 \<Rightarrow>
          (case messages_json (dataDir s1) of
             None \<Rightarrow> Inr s1
           | Some data \<Rightarrow>
               (case asMessages data of
                  None \<Rightarrow> Inl ParseMessagesError
                | Some ms \<Rightarrow> Inr (s1\<lparr>messages := ms\<rparr>))))"

text \<open>\<open>New\<close>: \<open>mk\<close> tells whether \<open>os.MkdirAll\<close> succeeds on the directory \<open>d\<close>.\<close>

definition New :: "lib \<Rightarrow> bool \<Rightarrow> dir \<Rightarrow> store_error + Store" where
  "New L mk d =
     (if \<not> mk then Inl MkdirError
      else load L \<lparr>users = Map.empty, byID = Map.empty, messages = [], dataDir = d\<rparr>)"

section \<open>Channels\<close>

text \<open>
  A buffered channel (every channel modelled here is made with a positive capacity): the
  items waiting in it, its capacity, and whether it has been closed.
\<close>

record 'a chan =
  buf :: "'a list"
  cap :: nat
  closed :: bool

datatype panic = SendOnClosedChannel | CloseOfClosedChannel | NilDereference

definition make_chan :: "nat \<Rightarrow> 'a chan" where
  "make_chan n = \<lparr>buf = [], cap = n, closed = False\<rparr>"

text \<open>
  The send of a \<open>select\<close> with a \<open>default\<close> case: it panics on a closed channel, takes
  the item when the buffer has room, and falls to \<open>default\<close> otherwise.
\<close>

datatype 'a offered = Enqueued "'a chan" | WouldBlock | SendPanics

definition trySend :: "'a chan \<Rightarrow> 'a \<Rightarrow> 'a offered" where
  "trySend ch x =
     (if closed ch then SendPanics
      else if length (buf ch) < cap ch then Enqueued (ch\<lparr>buf := buf ch @ [x]\<rparr>)
      else WouldBlock)"

definition closeChan :: "'a chan \<Rightarrow> panic + 'a chan" where
  "closeChan ch = (if closed ch then Inl CloseOfClosedChannel else Inr (ch\<lparr>closed := True\<rparr>))"

section \<open>Packets\<close>

text \<open>
  The human-readable texts of the server, kept as the format and its arguments.
\<close>

datatype notice =
    Welcome
  | RegisterRequires
  | LoginRequires
  | MustLoginOrRegister
  | MustLogin
  | ChatRequires
  | MalformedSearch
  | NoCriterion
  | MalformedPacket
  | UnknownType string
  | StoreError store_error
  | ErrorPrefix notice
  | RegisteredAs string
  | LoggedInAs string
  | Joined string
  | NResults nat
  | LastN nat
  | NOnline nat

datatype UserInfo = UserInfo string string

datatype data = Messages "StoredMessage list" | Users "UserInfo list"

text \<open>
  An encoded server packet, as it travels on a send channel: a \<open>response\<close> with its
  success flag, message and data, a \<open>broadcast\<close> with user id, username, content and
  timestamp, or a \<open>system\<close> notice. Encoding these packets does not fail.
\<close>

datatype wire =
    Response bool notice "data option"
  | Broadcast string string string time
  | System notice

record AuthPayload =
  aUsername :: string
  aPassword :: string

record ChatPayload =
  cContent :: string

record SearchPayload =
  Query :: string
  sUsername :: string
  From :: "time option"
  To :: "time option"

record HistoryPayload =
  Limit :: int

text \<open>
  A raw payload is what \<open>json.Unmarshal\<close> makes of it for each payload type, \<open>None\<close>
  where it returns an error.
\<close>

record RawMessage =
  asAuth :: "AuthPayload option"
  asChat :: "ChatPayload option"
  asSearch :: "SearchPayload option"
  asHistory :: "HistoryPayload option"

record Packet =
  Type :: string
  Payload :: RawMessage

section \<open>Clients, hub and server\<close>

definition sendBufSize :: nat where
  "sendBufSize = 256"

text \<open>A \<open>Client\<close> struct; \<open>connOpen\<close> is the state of its \<open>net.Conn\<close>.\<close>

record Client =
  userID :: string
  username :: string
  send :: "wire chan"
  connOpen :: bool

definition newClient :: Client where
  "newClient = \<lparr>userID = [], username = [], send = make_chan sendBufSize, connOpen = True\<rparr>"

definition isAuthenticated :: "Client \<Rightarrow> bool" where
  "isAuthenticated c = (userID c \<noteq> [])"

text \<open>
  The hub: the keys of its \<open>clients\<close> map (every value is \<open>true\<close>), its \<open>broadcast\<close>
  channel, and whether \<open>Run\<close> has returned. The channel has room for \<open>broadcastSize\<close>
  payloads. A goroutine that sends when they are all taken is parked with its payload
  behind them, and the hub receives the payloads in the order of the sends. So the field
  \<open>broadcast\<close> lists the payloads the hub has yet to receive: the first \<open>broadcastSize\<close>
  of them are in the buffer, and each of the others is in the hands of a parked sender.
\<close>

definition broadcastSize :: nat where
  "broadcastSize = 256"

record Hub =
  clients :: "nat set"
  broadcast :: "wire list"
  stopped :: bool

datatype log_line =
    HubAdded nat
  | HubRemoved nat
  | HubDropped nat
  | PoolQueueFull
  | StoreSaveError store_error
  | ServerRegistered string string
  | ServerLogin string string

text \<open>
  What a handler has left to do when its send to the hub is over: \<open>handleChat\<close> submits the
  message to the pool, \<open>handleRegister\<close> and \<open>handleLogin\<close> print a log line.
\<close>

datatype after_send = ThenSubmit StoredMessage | ThenLog log_line

text \<open>
  The server with everything its goroutines share: the hub, the store, the job channel
  of the worker pool, the online index (user id to client), the \<open>Client\<close> structs by
  address, the connection counter and the log; and the connections whose handler is
  inside its send to the hub, in the order of their sends, each with what it does next.
\<close>

record Server =
  hub :: Hub
  store :: Store
  jobs :: "StoredMessage chan"
  online :: "string \<rightharpoonup> nat"
  heap :: "nat \<Rightarrow> Client"
  connID :: nat
  logs :: "log_line list"
  waiting :: "(nat \<times> after_send) list"

definition logPrintf :: "log_line \<Rightarrow> Server \<Rightarrow> Server" where
  "logPrintf l st = st\<lparr>logs := logs st @ [l]\<rparr>"

definition setSend :: "nat \<Rightarrow> wire chan \<Rightarrow> Server \<Rightarrow> Server" where
  "setSend c ch st = st\<lparr>heap := (heap st)(c := (heap st c)\<lparr>send := ch\<rparr>)\<rparr>"

definition deleteClient :: "nat \<Rightarrow> Server \<Rightarrow> Server" where
  "deleteClient c st = st\<lparr>hub := (hub st)\<lparr>clients := clients (hub st) - {c}\<rparr>\<rparr>"

definition newHub :: Hub where
  "newHub = \<lparr>clients = {}, broadcast = [], stopped = False\<rparr>"

subsection \<open>Hub.Run, one case of its select at a time\<close>

definition Run_register :: "nat \<Rightarrow> Server \<Rightarrow> Server" where
  "Run_register c st =
     logPrintf (HubAdded c) (st\<lparr>hub := (hub st)\<lparr>clients := insert c (clients (hub st))\<rparr>\<rparr>)"

definition Run_unregister :: "nat \<Rightarrow> Server \<Rightarrow> panic + Server" where
  "Run_unregister c st =
     (if c \<in> clients (hub st) then
        (case closeChan (send (heap st c)) of
           Inl p \<Rightarrow> Inl p
         | Inr ch \<Rightarrow> Inr (logPrintf (HubRemoved c) (setSend c ch (deleteClient c st))))
      else Inr st)"

text \<open>
  The loop of the broadcast case over the keys \<open>range\<close> yields. The body deletes only the
  entry it is visiting, so \<open>range\<close> yields every key of the map once, in an order of its
  choosing: the list \<open>order\<close>.
\<close>

fun fanout :: "wire \<Rightarrow> nat list \<Rightarrow> Server \<Rightarrow> panic + Server" where
  "fanout d [] st = Inr st"
| "fanout d (c # cs) st =
     (case trySend (send (heap st c)) d of
        Enqueued ch \<Rightarrow> fanout d cs (setSend c ch st)
      | WouldBlock \<Rightarrow>
          (case closeChan (send (heap st c)) of
             Inl p \<Rightarrow> Inl p
           | Inr ch \<Rightarrow> fanout d cs (logPrintf (HubDropped c) (setSend c ch (deleteClient c st))))
      | SendPanics \<Rightarrow> Inl SendOnClosedChannel)"

text \<open>The broadcast case is taken when a payload waits on the channel (\<open>None\<close> otherwise).\<close>

definition Run_broadcast :: "nat list \<Rightarrow> Server \<Rightarrow> (panic + Server) option" where
  "Run_broadcast order st =
     (case broadcast (hub st) of
        [] \<Rightarrow> None
      | d # rest \<Rightarrow> Some (fanout d order (st\<lparr>hub := (hub st)\<lparr>broadcast := rest\<rparr>\<rparr>)))"

fun closeAll :: "nat list \<Rightarrow> Server \<Rightarrow> panic + Server" where
  "closeAll [] st = Inr st"
| "closeAll (c # cs) st =
     (case closeChan (send (heap st c)) of
        Inl p \<Rightarrow> Inl p
      | Inr ch \<Rightarrow> closeAll cs (setSend c ch st))"

definition Run_done :: "nat list \<Rightarrow> Server \<Rightarrow> panic + Server" where
  "Run_done order st =
     (case closeAll order st of
        Inl p \<Rightarrow> Inl p
      | Inr st1 \<Rightarrow> Inr (st1\<lparr>hub := (hub st1)\<lparr>stopped := True\<rparr>\<rparr>))"

subsection \<open>The worker pool\<close>

definition jobsSize :: nat where
  "jobsSize = 1024"

definition submit :: "StoredMessage \<Rightarrow> Server \<Rightarrow> panic + Server" where
  "submit msg st =
     (case trySend (jobs st) msg of
        Enqueued ch \<Rightarrow> Inr (st\<lparr>jobs := ch\<rparr>)
      | WouldBlock \<Rightarrow> Inr (logPrintf PoolQueueFull st)
      | SendPanics \<Rightarrow> Inl SendOnClosedChannel)"

text \<open>
  One turn of a worker's loop: it takes the next job, if there is one, calls
  \<open>SaveMessage\<close> and logs its error.
\<close>

definition worker :: "write_outcome \<Rightarrow> Server \<Rightarrow> Server option" where
  "worker w st =
     (case buf (jobs st) of
        [] \<Rightarrow> None
      | msg # rest \<Rightarrow>
          (let (s1, err) = SaveMessage w msg (store st);
               st1 = st\<lparr>jobs := (jobs st)\<lparr>buf := rest\<rparr>, store := s1\<rparr>
           in case err of
                None \<Rightarrow> Some st1
              | Some e \<Rightarrow> Some (logPrintf (StoreSaveError e) st1)))"

text \<open>\<open>server.New\<close>, before any connection is accepted.\<close>

definition Server_New :: "lib \<Rightarrow> bool \<Rightarrow> dir \<Rightarrow> store_error + Server" where
  "Server_New L mk d =
     (case New L mk d of
        Inl e \<Rightarrow> Inl e
      | Inr s \<Rightarrow>
          Inr \<lparr>hub = newHub, store = s, jobs = make_chan jobsSize, online = Map.empty,
               heap = (\<lambda>_. newClient), connID = 0, logs = [], waiting = []\<rparr>)"

subsection \<open>Sending to one client\<close>

definition sendPacket :: "nat \<Rightarrow> wire \<Rightarrow> Server \<Rightarrow> panic + Server" where
  "sendPacket c pkt st =
     (case trySend (send (heap st c)) pkt of
        Enqueued ch \<Rightarrow> Inr (setSend c ch st)
      | WouldBlock \<Rightarrow> Inr st
      | SendPanics \<Rightarrow> Inl SendOnClosedChannel)"

definition sendResponse :: "nat \<Rightarrow> bool \<Rightarrow> notice \<Rightarrow> data option \<Rightarrow> Server \<Rightarrow> panic + Server" where
  "sendResponse c success msg d st = sendPacket c (Response success msg d) st"

definition sendError :: "nat \<Rightarrow> notice \<Rightarrow> Server \<Rightarrow> panic + Server" where
  "sendError c msg st = sendPacket c (Response False (ErrorPrefix msg) None) st"

definition sendSystem :: "nat \<Rightarrow> notice \<Rightarrow> Server \<Rightarrow> panic + Server" where
  "sendSystem c msg st = sendPacket c (System msg) st"

definition setIdentity :: "nat \<Rightarrow> string \<Rightarrow> string \<Rightarrow> Server \<Rightarrow> Server" where
  "setIdentity c uid name st =
     st\<lparr>heap := (heap st)(c := (heap st c)\<lparr>userID := uid, username := name\<rparr>)\<rparr>"

subsection \<open>Online user tracking\<close>

definition addOnline :: "nat \<Rightarrow> Server \<Rightarrow> Server" where
  "addOnline c st = st\<lparr>online := (online st)(userID (heap st c) \<mapsto> c)\<rparr>"

definition removeOnline :: "nat \<Rightarrow> Server \<Rightarrow> Server" where
  "removeOnline c st =
     (if \<not> isAuthenticated (heap st c) then st
      else st\<lparr>online := (online st)(userID (heap st c) := None)\<rparr>)"

text \<open>
  \<open>onlineUsers\<close> walks the map in the order \<open>order\<close> of its keys and reads the identity
  of the client stored under each key.
\<close>

definition onlineUsers :: "string list \<Rightarrow> Server \<Rightarrow> UserInfo list" where
  "onlineUsers order st =
     map (\<lambda>c. UserInfo (userID (heap st c)) (username (heap st c)))
         (List.map_filter (online st) order)"

subsection \<open>Sending to the hub\<close>

definition runAfter :: "after_send \<Rightarrow> Server \<Rightarrow> panic + Server" where
  "runAfter k st =
     (case k of
        ThenSubmit msg \<Rightarrow> submit msg st
      | ThenLog l \<Rightarrow> Inr (logPrintf l st))"

text \<open>
  The statement \<open>s.hub.broadcast <- data\<close> of connection \<open>c\<close>'s handler, followed by the
  rest \<open>k\<close> of the handler. The payload joins the payloads the hub has yet to receive.
  With room in the buffer the send is over at once and the handler goes on. With the buffer full the goroutine is parked inside the send: the
  result is the state in which it waits, with \<open>c\<close> at the end of \<open>waiting\<close> and the rest
  of the handler not run. So the result \<open>Inr st'\<close> of a handler is the state in which its
  goroutine stops running: it has returned, or it is parked and listed in \<open>waiting st'\<close>.
\<close>

definition sendBroadcast :: "nat \<Rightarrow> wire \<Rightarrow> after_send \<Rightarrow> Server \<Rightarrow> panic + Server" where
  "sendBroadcast c d k st =
     (let st1 = st\<lparr>hub := (hub st)\<lparr>broadcast := broadcast (hub st) @ [d]\<rparr>\<rparr>
      in if length (broadcast (hub st)) < broadcastSize then runAfter k st1
         else Inr (st1\<lparr>waiting := waiting st @ [(c, k)]\<rparr>))"

text \<open>
  A parked sender goes on once its payload is within the first \<open>broadcastSize\<close> of the
  channel, that is once the hub has received enough: fewer senders are still parked than
  \<open>waiting\<close> lists. The first one listed then runs the rest of its handler (\<open>None\<close> when no
  listed sender can go on).
\<close>

definition resume :: "Server \<Rightarrow> (panic + Server) option" where
  "resume st =
     (case waiting st of
        [] \<Rightarrow> None
      | (c, k) # ws \<Rightarrow>
          if length (broadcast (hub st)) < broadcastSize + length (waiting st)
          then Some (runAfter k (st\<lparr>waiting := ws\<rparr>))
          else None)"

subsection \<open>Handlers\<close>

text \<open>\<open>broadcastSystem\<close>, with the connection whose handler calls it and the rest of that handler.\<close>

definition broadcastSystem :: "nat \<Rightarrow> notice \<Rightarrow> after_send \<Rightarrow> Server \<Rightarrow> panic + Server" where
  "broadcastSystem c msg k st = sendBroadcast c (System msg) k st"

definition handleRegister :: "lib \<Rightarrow> env \<Rightarrow> nat \<Rightarrow> RawMessage \<Rightarrow> Server \<Rightarrow> panic + Server" where
  "handleRegister L E c raw st =
     (case asAuth raw of
        None \<Rightarrow> sendError c RegisterRequires st
      | Some p \<Rightarrow>
          if aUsername p = [] \<or> aPassword p = [] then sendError c RegisterRequires st
          else
            (case RegisterUser L E (aUsername p) (aPassword p) (store st) of
               ((_, Some e), s1) \<Rightarrow> sendError c (StoreError e) (st\<lparr>store := s1\<rparr>)
             | ((None, None), s1) \<Rightarrow> Inl NilDereference
             | ((Some u, None), s1) \<Rightarrow>
                 (let st1 = setIdentity c (ID u) (Username u) (st\<lparr>store := s1\<rparr>);
                      st2 = addOnline c st1
                  in case sendResponse c True (RegisteredAs (Username u)) None st2 of
                       Inl p \<Rightarrow> Inl p
                     | Inr st3 \<Rightarrow>
                         broadcastSystem c (Joined (Username u))
                           (ThenLog (ServerRegistered (Username u) (ID u))) st3)))"

definition handleLogin :: "lib \<Rightarrow> nat \<Rightarrow> RawMessage \<Rightarrow> Server \<Rightarrow> panic + Server" where
  "handleLogin L c raw st =
     (case asAuth raw of
        None \<Rightarrow> sendError c LoginRequires st
      | Some p \<Rightarrow>
          if aUsername p = [] \<or> aPassword p = [] then sendError c LoginRequires st
          else
            (case Authenticate L (aUsername p) (aPassword p) (store st) of
               Inl e \<Rightarrow> sendError c (StoreError e) st
             | Inr u \<Rightarrow>
                 (let st1 = setIdentity c (ID u) (Username u) st;
                      st2 = addOnline c st1
                  in case sendResponse c True (LoggedInAs (Username u)) None st2 of
                       Inl p \<Rightarrow> Inl p
                     | Inr st3 \<Rightarrow>
                         broadcastSystem c (Joined (Username u))
                           (ThenLog (ServerLogin (Username u) (ID u))) st3)))"

definition handleChat :: "time \<Rightarrow> nat \<Rightarrow> RawMessage \<Rightarrow> Server \<Rightarrow> panic + Server" where
  "handleChat t c raw st =
     (if \<not> isAuthenticated (heap st c) then sendError c MustLoginOrRegister st
      else
        (case asChat raw of
           None \<Rightarrow> sendError c ChatRequires st
         | Some p \<Rightarrow>
             if cContent p = [] then sendError c ChatRequires st
             else
               (let msg = \<lparr>mID = decimal t, mUserID = userID (heap st c),
                           mUsername = username (heap st c), Content = cContent p,
                           Timestamp = t\<rparr>;
                    bcast = Broadcast (mUserID msg) (mUsername msg) (Content msg) (Timestamp msg)
                in sendBroadcast c bcast (ThenSubmit msg) st)))"

definition handleSearch :: "lib \<Rightarrow> nat \<Rightarrow> RawMessage \<Rightarrow> Server \<Rightarrow> panic + Server" where
  "handleSearch L c raw st =
     (if \<not> isAuthenticated (heap st c) then sendError c MustLogin st
      else
        (case asSearch raw of
           None \<Rightarrow> sendError c MalformedSearch st
         | Some p \<Rightarrow>
             if Query p = [] \<and> sUsername p = [] \<and> From p = None \<and> To p = None
             then sendError c NoCriterion st
             else
               (let results = Search L (Query p) (sUsername p) (From p) (To p) (store st)
                in sendResponse c True (NResults (length results)) (Some (Messages results)) st)))"

definition handleHistory :: "nat \<Rightarrow> RawMessage \<Rightarrow> Server \<Rightarrow> panic + Server" where
  "handleHistory c raw st =
     (if \<not> isAuthenticated (heap st c) then sendError c MustLogin st
      else
        (let limit0 = (case asHistory raw of None \<Rightarrow> 20 | Some p \<Rightarrow> Limit p);
             limit = (if limit0 \<le> 0 then 20 else limit0);
             msgs = GetHistory limit (store st)
         in sendResponse c True (LastN (length msgs)) (Some (Messages msgs)) st))"

definition handleUsers :: "string list \<Rightarrow> nat \<Rightarrow> Server \<Rightarrow> panic + Server" where
  "handleUsers order c st =
     (if \<not> isAuthenticated (heap st c) then sendError c MustLogin st
      else
        (let us = onlineUsers order st
         in sendResponse c True (NOnline (length us)) (Some (Users us)) st))"

definition closeConn :: "nat \<Rightarrow> Server \<Rightarrow> Server" where
  "closeConn c st = st\<lparr>heap := (heap st)(c := (heap st c)\<lparr>connOpen := False\<rparr>)\<rparr>"

definition handlePacket :: "lib \<Rightarrow> env \<Rightarrow> nat \<Rightarrow> Packet \<Rightarrow> Server \<Rightarrow> panic + Server" where
  "handlePacket L E c pkt st =
     (if Type pkt = ''register'' then handleRegister L E c (Payload pkt) st
      else if Type pkt = ''login'' then handleLogin L c (Payload pkt) st
      else if Type pkt = ''chat'' then handleChat (now E) c (Payload pkt) st
      else if Type pkt = ''search'' then handleSearch L c (Payload pkt) st
      else if Type pkt = ''history'' then handleHistory c (Payload pkt) st
      else if Type pkt = ''users'' then handleUsers (range_online E) c st
      else if Type pkt = ''quit'' then Inr (closeConn c st)
      else sendError c (UnknownType (Type pkt)) st)"

subsection \<open>A connection's life\<close>

text \<open>
  \<open>serveConn\<close> up to the start of the pumps: the client gets the next connection number
  as its address, the hub takes it from the unbuffered \<open>register\<close> channel, and the welcome
  is queued. \<open>readPumpExit\<close> is the deferred function of \<open>readPump\<close>: the hub takes the
  client from the \<open>unregister\<close> channel, then the online index forgets its user id.
\<close>

definition serveConn :: "Server \<Rightarrow> panic + Server" where
  "serveConn st =
     (let c = connID st + 1;
          st1 = st\<lparr>connID := c, heap := (heap st)(c := newClient)\<rparr>
      in sendSystem c Welcome (Run_register c st1))"

definition readPumpExit :: "nat \<Rightarrow> Server \<Rightarrow> panic + Server" where
  "readPumpExit c st =
     (case Run_unregister c st of
        Inl p \<Rightarrow> Inl p
      | Inr st1 \<Rightarrow> Inr (closeConn c (removeOnline c st1)))"

section \<open>The specification's notions\<close>

text \<open>
  The most recent \<open>k\<close> items of a log, oldest first: the \<open>k\<close> newest are taken from the
  end, and given back in the order of the log.
\<close>

definition most_recent :: "nat \<Rightarrow> 'a list \<Rightarrow> 'a list" where
  "most_recent k xs = rev (take k (rev xs))"

text \<open>A string occurs in another one when it is found at some offset.\<close>

definition occursIn :: "string \<Rightarrow> string \<Rightarrow> bool" where
  "occursIn sub s = (\<exists>i \<in> {0..length s}. take (length sub) (drop i s) = sub)"

text \<open>
  Two strings are the same up to case when \<open>strings.EqualFold\<close> says so: it is the
  comparison of Go that ignores case. A message satisfies a search request when it
  satisfies every criterion the request supplies: the query occurs in the content once
  both are in lower case, the username is the author's up to case, the timestamp is
  within the bounds.
\<close>

definition sameUpToCase :: "lib \<Rightarrow> string \<Rightarrow> string \<Rightarrow> bool" where
  "sameUpToCase L s t = EqualFold L s t"

definition satisfies :: "lib \<Rightarrow> SearchPayload \<Rightarrow> StoredMessage \<Rightarrow> bool" where
  "satisfies L p m =
     ((Query p \<noteq> [] \<longrightarrow> occursIn (ToLower L (Query p)) (ToLower L (Content m))) \<and>
      (sUsername p \<noteq> [] \<longrightarrow> sameUpToCase L (mUsername m) (sUsername p)) \<and>
      (case From p of None \<Rightarrow> True | Some f \<Rightarrow> f \<le> Timestamp m) \<and>
      (case To p of None \<Rightarrow> True | Some t \<Rightarrow> Timestamp m \<le> t))"

text \<open>Two usernames have the same lower-case form.\<close>

definition sameLower :: "lib \<Rightarrow> string \<Rightarrow> string \<Rightarrow> bool" where
  "sameLower L s t = (ToLower L s = ToLower L t)"

text \<open>A queue has spare capacity when it holds fewer items than its capacity.\<close>

definition spare :: "'a chan \<Rightarrow> bool" where
  "spare ch = (length (buf ch) < cap ch)"

text \<open>The live connections of the hub have open queues.\<close>

definition live_open :: "Server \<Rightarrow> bool" where
  "live_open st = (\<forall>c \<in> clients (hub st). \<not> closed (send (heap st c)))"

text \<open>
  The accounts of a store are filed under their lower-case usernames: every store that
  \<open>New\<close> loads and \<open>RegisterUser\<close> extends is of this kind.
\<close>

definition filed :: "lib \<Rightarrow> Store \<Rightarrow> bool" where
  "filed L s = (\<forall>k u. users s k = Some u \<longrightarrow> k = ToLower L (Username u))"

text \<open>The index by id holds exactly the accounts of the store, each under its id.\<close>

definition indexed :: "Store \<Rightarrow> bool" where
  "indexed s = (\<forall>i u. byID s i = Some u \<longleftrightarrow> (u \<in> ran (users s) \<and> ID u = i))"

text \<open>
  An account or a message that JSON can hold as it is: its strings are valid UTF-8 and its
  time is within the years 0 to 9999.
\<close>

definition jsonSafeUser :: "User \<Rightarrow> bool" where
  "jsonSafeUser u =
     (validUTF8 (ID u) \<and> validUTF8 (Username u) \<and> validUTF8 (PasswordHash u) \<and>
      jsonTimeOk (CreatedAt u))"

definition jsonSafeMessage :: "StoredMessage \<Rightarrow> bool" where
  "jsonSafeMessage m =
     (validUTF8 (mID m) \<and> validUTF8 (mUserID m) \<and> validUTF8 (mUsername m) \<and>
      validUTF8 (Content m) \<and> jsonTimeOk (Timestamp m))"

section \<open>Sample data\<close>

text \<open>
  A sample library. Its digest prefixes a mark. Its case functions agree with
  \<open>strings.ToLower\<close> and \<open>strings.EqualFold\<close> on the strings made of ASCII characters and
  of the four letters used below: \<open>ToLower\<close> maps A to Z to a to z, the capital E with
  acute (bytes C3 89) to the small one (C3 A9) and the capital I with dot above (C4 B0)
  to i; \<open>EqualFold\<close> holds of two strings that agree rune by rune up to the folding of
  A to Z with a to z, of the two E with acute, and of the long s (C5 BF) with s and S;
  the capital I with dot above folds to nothing but itself.
\<close>

definition lowerByte :: "char \<Rightarrow> char" where
  "lowerByte c =
     (let n = (of_char c :: nat) in if 65 \<le> n \<and> n \<le> 90 then char_of (n + 32) else c)"

fun sample_ToLower :: "string \<Rightarrow> string" where
  "sample_ToLower [] = []"
| "sample_ToLower [c] = [lowerByte c]"
| "sample_ToLower (c # d # s) =
     (if c = CHR 0xC4 \<and> d = CHR 0xB0 then CHR ''i'' # sample_ToLower s
      else if c = CHR 0xC3 \<and> d = CHR 0x89 then CHR 0xC3 # CHR 0xA9 # sample_ToLower s
      else lowerByte c # sample_ToLower (d # s))"

fun sample_fold :: "string \<Rightarrow> string" where
  "sample_fold [] = []"
| "sample_fold [c] = [lowerByte c]"
| "sample_fold (c # d # s) =
     (if c = CHR 0xC5 \<and> d = CHR 0xBF then CHR ''s'' # sample_fold s
      else if c = CHR 0xC3 \<and> d = CHR 0x89 then CHR 0xC3 # CHR 0xA9 # sample_fold s
      else lowerByte c # sample_fold (d # s))"

definition sample_lib :: lib where
  "sample_lib =
     \<lparr>sha256hex = (\<lambda>pw. CHR ''#'' # pw),
      ToLower = sample_ToLower,
      EqualFold = (\<lambda>s t. sample_fold s = sample_fold t)\<rparr>"

text \<open>
  The three messages of the specification's search example; a store holding them and the
  account of Alice; a server with two connections, the first logged in as Alice.
\<close>

definition alice :: User where
  "alice = \<lparr>ID = ''1-0001'', Username = ''Alice'', PasswordHash = ''#secret'', CreatedAt = 0\<rparr>"

definition msg1 :: StoredMessage where
  "msg1 = \<lparr>mID = ''1'', mUserID = ''1-0001'', mUsername = ''alice'',
           Content = ''hello world'', Timestamp = 1\<rparr>"

definition msg2 :: StoredMessage where
  "msg2 = \<lparr>mID = ''2'', mUserID = ''2-0002'', mUsername = ''bob'',
           Content = ''goodbye'', Timestamp = 2\<rparr>"

definition msg3 :: StoredMessage where
  "msg3 = \<lparr>mID = ''3'', mUserID = ''1-0001'', mUsername = ''alice'',
           Content = ''hello again'', Timestamp = 3\<rparr>"

definition sample_store :: Store where
  "sample_store =
     \<lparr>users = [''alice'' \<mapsto> alice], byID = [''1-0001'' \<mapsto> alice],
      messages = [msg1, msg2, msg3],
      dataDir = \<lparr>users_json = None, messages_json = None\<rparr>\<rparr>"

definition sample_env :: env where
  "sample_env =
     \<lparr>id_nanos = 7, id_rand = 255, now = 9, range_users = [''alice''],
      range_online = [''1-0001''], wrote = WriteOk\<rparr>"

definition sample_server :: Server where
  "sample_server =
     \<lparr>hub = \<lparr>clients = {1, 2}, broadcast = [], stopped = False\<rparr>,
      store = sample_store,
      jobs = make_chan jobsSize,
      online = [''1-0001'' \<mapsto> 1],
      heap = (\<lambda>_. newClient)
               (1 := \<lparr>userID = ''1-0001'', username = ''Alice'',
                      send = make_chan sendBufSize, connOpen = True\<rparr>),
      connID = 2,
      logs = [],
      waiting = []\<rparr>"

definition no_payload :: RawMessage where
  "no_payload = \<lparr>asAuth = None, asChat = None, asSearch = None, asHistory = None\<rparr>"

definition busy_server :: Server where
  "busy_server = sample_server\<lparr>store := sample_store\<lparr>messages := replicate 21 msg1\<rparr>\<rparr>"

definition failing_env :: env where
  "failing_env = sample_env\<lparr>wrote := WriteFails None, range_users := [''alice'', ''bob'']\<rparr>"

definition bob_auth :: RawMessage where
  "bob_auth = no_payload\<lparr>asAuth := Some \<lparr>aUsername = ''bob'', aPassword = ''pw''\<rparr>\<rparr>"

definition full_chan :: "wire chan" where
  "full_chan = \<lparr>buf = replicate 256 (System Welcome), cap = 256, closed = False\<rparr>"

definition crowded_server :: Server where
  "crowded_server =
     sample_server\<lparr>hub := \<lparr>clients = {1, 2}, broadcast = [System (Joined ''Alice'')], stopped = False\<rparr>,
                    heap := (heap sample_server)(2 := newClient\<lparr>send := full_chan\<rparr>)\<rparr>"

definition saturated_server :: Server where
  "saturated_server =
     sample_server\<lparr>jobs := \<lparr>buf = replicate 1024 msg1, cap = 1024, closed = False\<rparr>\<rparr>"

text \<open>The sample server with 256 payloads on the hub's channel.\<close>

definition jammed_server :: Server where
  "jammed_server =
     sample_server\<lparr>hub := \<lparr>clients = {1, 2}, broadcast = replicate 256 (System Welcome),
                            stopped = False\<rparr>\<rparr>"


definition hi_chat :: RawMessage where
  "hi_chat = no_payload\<lparr>asChat := Some \<lparr>cContent = ''hi''\<rparr>\<rparr>"

definition hi_message :: StoredMessage where
  "hi_message = \<lparr>mID = decimal 5, mUserID = ''1-0001'', mUsername = ''Alice'',
                 Content = ''hi'', Timestamp = 5\<rparr>"

text \<open>
  The sample server with Alice's handler parked inside its send of the chat message \<open>hi\<close>,
  after the hub has received the first of the payloads on its channel.
\<close>

definition parked_server :: Server where
  "parked_server =
     sample_server\<lparr>hub := \<lparr>clients = {1, 2},
                            broadcast = replicate 255 (System Welcome) @
                                          [Broadcast ''1-0001'' ''Alice'' ''hi'' 5],
                            stopped = False\<rparr>,
                    waiting := [(1, ThenSubmit hi_message)]\<rparr>"

text \<open>The sample server after its second connection has logged in as Alice too.\<close>

definition second_login :: Server where
  "second_login =
     sample_server
       \<lparr>hub := \<lparr>clients = {1, 2}, broadcast = [System (Joined ''Alice'')], stopped = False\<rparr>,
        online := [''1-0001'' \<mapsto> 2],
        heap := (heap sample_server)
                  (2 := \<lparr>userID = ''1-0001'', username = ''Alice'',
                         send = \<lparr>buf = [Response True (LoggedInAs ''Alice'') None],
                                  cap = sendBufSize, closed = False\<rparr>,
                         connOpen = True\<rparr>),
        logs := [ServerLogin ''Alice'' ''1-0001'']\<rparr>"

text \<open>
  A store with the account of Sam, and the name that differs from \<open>Sam\<close> in its first
  letter only, which is the long s.
\<close>

definition sam :: User where
  "sam = \<lparr>ID = ''2-0002'', Username = ''Sam'', PasswordHash = ''#pw'', CreatedAt = 0\<rparr>"

definition sam_store :: Store where
  "sam_store =
     \<lparr>users = [''sam'' \<mapsto> sam], byID = [''2-0002'' \<mapsto> sam], messages = [],
      dataDir = \<lparr>users_json = None, messages_json = None\<rparr>\<rparr>"

definition long_s_am :: string where
  "long_s_am = [CHR 0xC5, CHR 0xBF, CHR ''a'', CHR ''m'']"

definition sam_env :: env where
  "sam_env = sample_env\<lparr>range_users := [''sam'', long_s_am]\<rparr>"

definition long_s_user :: User where
  "long_s_user = \<lparr>ID = generateID 7 255, Username = long_s_am, PasswordHash = ''#pw'',
                   CreatedAt = 9\<rparr>"

text \<open>
  A server whose log has one message, written by the user whose name is the capital I
  with dot above; the first connection is logged in as Alice.
\<close>

definition dotted_I :: string where
  "dotted_I = [CHR 0xC4, CHR 0xB0]"

definition dotted_message :: StoredMessage where
  "dotted_message = \<lparr>mID = ''4'', mUserID = ''3-0003'', mUsername = dotted_I,
                     Content = ''merhaba'', Timestamp = 4\<rparr>"

definition dotted_server :: Server where
  "dotted_server = sample_server\<lparr>store := sample_store\<lparr>messages := [dotted_message]\<rparr>\<rparr>"

definition dotted_search :: SearchPayload where
  "dotted_search = \<lparr>Query = [], sUsername = dotted_I, From = None, To = None\<rparr>"

text \<open>A store whose one message has a content of one byte, which is no UTF-8.\<close>

definition raw_message :: StoredMessage where
  "raw_message = \<lparr>mID = ''5'', mUserID = ''1-0001'', mUsername = ''alice'',
                  Content = [CHR 0xFF], Timestamp = 5\<rparr>"

definition raw_store :: Store where
  "raw_store =
     \<lparr>users = Map.empty, byID = Map.empty, messages = [raw_message],
      dataDir = \<lparr>users_json = None, messages_json = None\<rparr>\<rparr>"

text \<open>A store with the account of Rene, whose name ends in the small E with acute.\<close>

definition rene :: User where
  "rene = \<lparr>ID = ''4-0004'', Username = [CHR ''R'', CHR ''e'', CHR ''n'', CHR 0xC3, CHR 0xA9],
           PasswordHash = ''#pw'', CreatedAt = 0\<rparr>"

definition rene_lower :: string where
  "rene_lower = [CHR ''r'', CHR ''e'', CHR ''n'', CHR 0xC3, CHR 0xA9]"

definition rene_upper :: string where
  "rene_upper = [CHR ''R'', CHR ''E'', CHR ''N'', CHR 0xC3, CHR 0x89]"

definition rene_store :: Store where
  "rene_store =
     \<lparr>users = [rene_lower \<mapsto> rene], byID = [''4-0004'' \<mapsto> rene], messages = [],
      dataDir = \<lparr>users_json = None, messages_json = None\<rparr>\<rparr>"

text \<open>What \<open>json\<close> makes of that content: the three bytes of U+FFFD.\<close>

definition raw_reloaded :: StoredMessage where
  "raw_reloaded = \<lparr>mID = ''5'', mUserID = ''1-0001'', mUsername = ''alice'',
                   Content = [CHR 0xEF, CHR 0xBF, CHR 0xBD], Timestamp = 5\<rparr>"

section \<open>Sending a packet\<close>

lemma isAuthenticated_sample: "isAuthenticated (heap sample_server 1)"
  by (simp add: sample_server_def isAuthenticated_def)

lemma sendPacket_room:
  assumes "\<not> closed (send (heap st c))" "length (buf (send (heap st c))) < cap (send (heap st c))"
  shows "sendPacket c pkt st = Inr (setSend c ((send (heap st c))\<lparr>buf := buf (send (heap st c)) @ [pkt]\<rparr>) st)"
  using assms by (simp add: sendPacket_def trySend_def)

lemma sendPacket_full:
  assumes "\<not> closed (send (heap st c))" "\<not> length (buf (send (heap st c))) < cap (send (heap st c))"
  shows "sendPacket c pkt st = Inr st"
  using assms by (simp add: sendPacket_def trySend_def)

lemma sendPacket_frame:
  assumes "sendPacket c pkt st = Inr st'"
  shows "hub st' = hub st \<and> store st' = store st \<and> jobs st' = jobs st \<and>
         online st' = online st \<and> logs st' = logs st \<and> connID st' = connID st \<and>
         (\<forall>x. x \<noteq> c \<longrightarrow> heap st' x = heap st x) \<and>
         userID (heap st' c) = userID (heap st c) \<and>
         username (heap st' c) = username (heap st c) \<and>
         connOpen (heap st' c) = connOpen (heap st c)"
  using assms by (auto simp: sendPacket_def setSend_def split: offered.splits)

lemma sendPacket_open:
  assumes "\<not> closed (send (heap st c))"
  shows "\<exists>st'. sendPacket c pkt st = Inr st' \<and>
           send (heap st' c) =
             (if spare (send (heap st c))
              then (send (heap st c))\<lparr>buf := buf (send (heap st c)) @ [pkt]\<rparr>
              else send (heap st c))"
  using assms by (simp add: sendPacket_def trySend_def spare_def setSend_def)

section \<open>History\<close>

lemma most_recent_drop: "most_recent k xs = drop (length xs - k) xs"
  by (simp add: most_recent_def take_rev)

lemma most_recent_all: "length xs \<le> k \<Longrightarrow> most_recent k xs = xs"
  by (simp add: most_recent_def)

lemma GetHistory_all: "n \<le> 0 \<Longrightarrow> GetHistory n s = messages s"
  by (simp add: GetHistory_def)

lemma GetHistory_recent:
  assumes n: "0 < n"
  shows "GetHistory n s = most_recent (nat n) (messages s)"
proof (cases "n \<ge> int (length (messages s))")
  case True
  then have "length (messages s) \<le> nat n" by linarith
  then show ?thesis using True by (simp add: GetHistory_def most_recent_all)
next
  case False
  then have "nat (int (length (messages s)) - n) = length (messages s) - nat n"
    using n by linarith
  then show ?thesis using False n by (simp add: GetHistory_def most_recent_drop)
qed

lemma handleHistory_authenticated:
  assumes "isAuthenticated (heap st c)"
  shows "handleHistory c raw st =
           (let limit = (case asHistory raw of None \<Rightarrow> 20
                         | Some p \<Rightarrow> if Limit p \<le> 0 then 20 else Limit p);
                msgs = GetHistory limit (store st)
            in sendResponse c True (LastN (length msgs)) (Some (Messages msgs)) st)"
  using assms by (simp add: handleHistory_def Let_def split: option.splits)

lemma GetHistory_limit:
  "GetHistory (if l \<le> 0 then 20 else l) s
     = most_recent (if l \<le> 0 then 20 else nat l) (messages s)"
  using GetHistory_recent [of 20 s] GetHistory_recent [of l s] by simp

text \<open>
  Claim C7. A history request of an authenticated connection does nothing but send that
  connection, through \<open>sendPacket\<close>, a success response that holds the most recent \<open>limit\<close>
  messages of the log, oldest first, where a payload that does not decode and a limit of
  zero or less stand for the bound 20: on an open queue the handler returns and the
  response with these messages is the last item of the queue when the queue had spare
  capacity; nothing else changes. When the bound is at least the length of the log, the
  messages are the whole log.
\<close>

theorem history_most_recent:
  assumes "isAuthenticated (heap st c)"
  shows "let limit = (case asHistory raw of None \<Rightarrow> 20
                      | Some p \<Rightarrow> if Limit p \<le> 0 then 20 else nat (Limit p));
             ms = most_recent limit (messages (store st));
             r = Response True (LastN (length ms)) (Some (Messages ms))
         in handleHistory c raw st = sendPacket c r st \<and>
            (\<forall>st'. handleHistory c raw st = Inr st' \<longrightarrow>
               store st' = store st \<and> online st' = online st \<and> hub st' = hub st \<and>
               jobs st' = jobs st \<and> (\<forall>x. x \<noteq> c \<longrightarrow> heap st' x = heap st x)) \<and>
            (\<not> closed (send (heap st c)) \<longrightarrow>
               (\<exists>st'. handleHistory c raw st = Inr st' \<and>
                  send (heap st' c) =
                    (if spare (send (heap st c))
                     then (send (heap st c))\<lparr>buf := buf (send (heap st c)) @ [r]\<rparr>
                     else send (heap st c)))) \<and>
            (length (messages (store st)) \<le> limit \<longrightarrow> ms = messages (store st))"
proof -
  define limit where "limit = (case asHistory raw of None \<Rightarrow> 20
                      | Some p \<Rightarrow> if Limit p \<le> 0 then 20 else nat (Limit p))"
  define ms where "ms = most_recent limit (messages (store st))"
  define r where "r = Response True (LastN (length ms)) (Some (Messages ms))"
  have g: "GetHistory (case asHistory raw of None \<Rightarrow> 20
                       | Some p \<Rightarrow> if Limit p \<le> 0 then 20 else Limit p) (store st) = ms"
  proof (cases "asHistory raw")
    case None
    then show ?thesis
      using GetHistory_limit [of 0 "store st"] by (simp add: ms_def limit_def)
  next
    case (Some p)
    then show ?thesis
      using GetHistory_limit [of "Limit p" "store st"] by (simp add: ms_def limit_def)
  qed
  have e: "handleHistory c raw st = sendPacket c r st"
  proof (cases "asHistory raw")
    case None
    then show ?thesis
      using assms g by (simp add: handleHistory_def Let_def sendResponse_def r_def)
  next
    case (Some p)
    then show ?thesis
      using assms g by (simp add: handleHistory_def Let_def sendResponse_def r_def)
  qed
  have f: "\<forall>st'. handleHistory c raw st = Inr st' \<longrightarrow>
               store st' = store st \<and> online st' = online st \<and> hub st' = hub st \<and>
               jobs st' = jobs st \<and> (\<forall>x. x \<noteq> c \<longrightarrow> heap st' x = heap st x)"
  proof (intro allI impI)
    fix st'
    assume "handleHistory c raw st = Inr st'"
    then have "sendPacket c r st = Inr st'" using e by simp
    from sendPacket_frame [OF this]
    show "store st' = store st \<and> online st' = online st \<and> hub st' = hub st \<and>
               jobs st' = jobs st \<and> (\<forall>x. x \<noteq> c \<longrightarrow> heap st' x = heap st x)"
      by simp
  qed
  have q: "\<not> closed (send (heap st c)) \<longrightarrow>
               (\<exists>st'. handleHistory c raw st = Inr st' \<and>
                  send (heap st' c) =
                    (if spare (send (heap st c))
                     then (send (heap st c))\<lparr>buf := buf (send (heap st c)) @ [r]\<rparr>
                     else send (heap st c)))"
  proof
    assume "\<not> closed (send (heap st c))"
    from sendPacket_open [OF this, of r]
    show "\<exists>st'. handleHistory c raw st = Inr st' \<and>
                  send (heap st' c) =
                    (if spare (send (heap st c))
                     then (send (heap st c))\<lparr>buf := buf (send (heap st c)) @ [r]\<rparr>
                     else send (heap st c))"
      unfolding e .
  qed
  have w: "length (messages (store st)) \<le> limit \<longrightarrow> ms = messages (store st)"
    by (simp add: ms_def most_recent_all)
  have "handleHistory c raw st = sendPacket c r st \<and>
            (\<forall>st'. handleHistory c raw st = Inr st' \<longrightarrow>
               store st' = store st \<and> online st' = online st \<and> hub st' = hub st \<and>
               jobs st' = jobs st \<and> (\<forall>x. x \<noteq> c \<longrightarrow> heap st' x = heap st x)) \<and>
            (\<not> closed (send (heap st c)) \<longrightarrow>
               (\<exists>st'. handleHistory c raw st = Inr st' \<and>
                  send (heap st' c) =
                    (if spare (send (heap st c))
                     then (send (heap st c))\<lparr>buf := buf (send (heap st c)) @ [r]\<rparr>
                     else send (heap st c)))) \<and>
            (length (messages (store st)) \<le> limit \<longrightarrow> ms = messages (store st))"
    by (rule conjI [OF e conjI [OF f conjI [OF q w]]])
  then show ?thesis
    unfolding r_def ms_def limit_def Let_def .
qed

lemma sample_client1:
  "\<not> closed (send (heap sample_server 1))"
  "spare (send (heap sample_server 1))"
  "buf (send (heap sample_server 1)) = []"
  by (simp_all add: sample_server_def make_chan_def spare_def sendBufSize_def)

theorem history_most_recent_witness:
  "isAuthenticated (heap sample_server 1) \<and> \<not> closed (send (heap sample_server 1)) \<and>
   (\<exists>st'. handleHistory 1 (no_payload\<lparr>asHistory := Some \<lparr>Limit = 1\<rparr>\<rparr>) sample_server = Inr st' \<and>
      buf (send (heap st' 1)) = [Response True (LastN (length [msg3])) (Some (Messages [msg3]))]) \<and>
   (\<exists>st'. handleHistory 1 (no_payload\<lparr>asHistory := Some \<lparr>Limit = 0\<rparr>\<rparr>) sample_server = Inr st' \<and>
      buf (send (heap st' 1))
        = [Response True (LastN (length [msg1, msg2, msg3])) (Some (Messages [msg1, msg2, msg3]))])"
proof -
  let ?one = "no_payload\<lparr>asHistory := Some \<lparr>Limit = 1\<rparr>\<rparr>"
  let ?zero = "no_payload\<lparr>asHistory := Some \<lparr>Limit = 0\<rparr>\<rparr>"
  have m: "messages (store sample_server) = [msg1, msg2, msg3]"
    by (simp add: sample_server_def sample_store_def)
  have l1: "(case asHistory ?one of None \<Rightarrow> 20
             | Some p \<Rightarrow> if Limit p \<le> 0 then 20 else nat (Limit p)) = 1"
    by simp
  have l0: "(case asHistory ?zero of None \<Rightarrow> 20
             | Some p \<Rightarrow> if Limit p \<le> 0 then 20 else nat (Limit p)) = 20"
    by simp
  have r1: "most_recent 1 [msg1, msg2, msg3] = [msg3]" by (simp add: most_recent_def)
  have r0: "most_recent 20 [msg1, msg2, msg3] = [msg1, msg2, msg3]"
    by (simp add: most_recent_def)
  note h1 = history_most_recent [OF isAuthenticated_sample, of ?one, unfolded Let_def l1 m r1]
  note h0 = history_most_recent [OF isAuthenticated_sample, of ?zero, unfolded Let_def l0 m r0]
  from h1 sample_client1(1) obtain s1 where
    a1: "handleHistory 1 ?one sample_server = Inr s1"
    and b1: "send (heap s1 1) =
              (if spare (send (heap sample_server 1))
               then (send (heap sample_server 1))\<lparr>buf := buf (send (heap sample_server 1)) @
                      [Response True (LastN (length [msg3])) (Some (Messages [msg3]))]\<rparr>
               else send (heap sample_server 1))"
    by blast
  from h0 sample_client1(1) obtain s0 where
    a0: "handleHistory 1 ?zero sample_server = Inr s0"
    and b0: "send (heap s0 1) =
              (if spare (send (heap sample_server 1))
               then (send (heap sample_server 1))\<lparr>buf := buf (send (heap sample_server 1)) @
                      [Response True (LastN (length [msg1, msg2, msg3]))
                         (Some (Messages [msg1, msg2, msg3]))]\<rparr>
               else send (heap sample_server 1))"
    by blast
  have c1: "buf (send (heap s1 1)) = [Response True (LastN (length [msg3])) (Some (Messages [msg3]))]"
    unfolding b1 using sample_client1(2,3) by simp
  have c0: "buf (send (heap s0 1))
        = [Response True (LastN (length [msg1, msg2, msg3])) (Some (Messages [msg1, msg2, msg3]))]"
    unfolding b0 using sample_client1(2,3) by simp
  show ?thesis using isAuthenticated_sample sample_client1(1) a1 c1 a0 c0 by blast
qed

text \<open>
  Claim C10. \<open>GetHistory\<close> itself returns the whole log for \<open>n \<le> 0\<close>. The bound 20 is put
  in by \<open>handleHistory\<close>, which answers a limit of zero or less with \<open>GetHistory 20\<close>, the
  last 20 messages of the log.
\<close>

theorem GetHistory_nonpositive:
  assumes "n \<le> 0"
  shows "GetHistory n s = messages s \<and>
         (isAuthenticated (heap st c) \<and> asHistory raw = Some \<lparr>Limit = n\<rparr> \<longrightarrow>
            handleHistory c raw st =
              sendResponse c True (LastN (length (GetHistory 20 (store st))))
                (Some (Messages (GetHistory 20 (store st)))) st) \<and>
         GetHistory 20 (store st)
           = drop (length (messages (store st)) - 20) (messages (store st))"
proof -
  have "GetHistory 20 (store st) = drop (length (messages (store st)) - 20) (messages (store st))"
    using GetHistory_recent [of 20 "store st"] by (simp add: most_recent_drop)
  then show ?thesis
    using assms by (auto simp: GetHistory_all handleHistory_authenticated Let_def)
qed

theorem GetHistory_nonpositive_witness:
  "(0::int) \<le> 0 \<and> isAuthenticated (heap busy_server 1) \<and>
   GetHistory 0 (store busy_server) = replicate 21 msg1 \<and>
   handleHistory 1 (no_payload\<lparr>asHistory := Some \<lparr>Limit = 0\<rparr>\<rparr>) busy_server
     = sendResponse 1 True (LastN 20) (Some (Messages (replicate 20 msg1))) busy_server"
proof -
  have a: "isAuthenticated (heap busy_server 1)"
    using isAuthenticated_sample by (simp add: busy_server_def)
  have m: "messages (store busy_server) = replicate 21 msg1"
    by (simp add: busy_server_def)
  have z: "(0::int) \<le> 0" by simp
  show ?thesis
    using GetHistory_nonpositive [OF z, of "store busy_server" busy_server 1
            "no_payload\<lparr>asHistory := Some \<lparr>Limit = 0\<rparr>\<rparr>"] a
    by (simp add: m)
qed

section \<open>Strings\<close>

lemma Bex_upto_Suc: "(\<exists>i \<in> {0..Suc n}. P i) \<longleftrightarrow> P 0 \<or> (\<exists>j \<in> {0..n}. P (Suc j))"
proof
  assume "\<exists>i \<in> {0..Suc n}. P i"
  then obtain i where i: "i \<le> Suc n" "P i" by auto
  show "P 0 \<or> (\<exists>j \<in> {0..n}. P (Suc j))"
  proof (cases i)
    case 0 then show ?thesis using i by simp
  next
    case (Suc j) then show ?thesis using i by auto
  qed
next
  assume "P 0 \<or> (\<exists>j \<in> {0..n}. P (Suc j))"
  then show "\<exists>i \<in> {0..Suc n}. P i" by auto
qed

lemma contains_occursIn: "contains s sub = occursIn sub s"
proof (induction s)
  case Nil
  show ?case by (auto simp: occursIn_def)
next
  case (Cons c cs)
  have "occursIn sub (c # cs) \<longleftrightarrow>
          take (length sub) (c # cs) = sub \<or> (\<exists>j \<in> {0..length cs}. take (length sub) (drop j cs) = sub)"
    unfolding occursIn_def by (simp add: Bex_upto_Suc del: take_Suc_Cons)
  then show ?case using Cons.IH by (simp add: occursIn_def)
qed

section \<open>Search\<close>

text \<open>
  What \<open>Search\<close> computes, whatever the library: the messages of the log, in the order of
  the log, that pass the four tests of the loop.
\<close>

lemma Search_loop_filter:
  "Search_loop L q u from to ms out
     = out @ filter (\<lambda>m. (q \<noteq> [] \<longrightarrow> contains (ToLower L (Content m)) q) \<and>
                          (u \<noteq> [] \<longrightarrow> EqualFold L (mUsername m) u) \<and>
                          (case from of None \<Rightarrow> True | Some f \<Rightarrow> f \<le> Timestamp m) \<and>
                          (case to of None \<Rightarrow> True | Some t \<Rightarrow> Timestamp m \<le> t)) ms"
proof (induction ms arbitrary: out)
  case Nil
  show ?case by simp
next
  case (Cons m ms)
  show ?case
    using Cons.IH
    by (auto simp: Before_def After_def split: option.splits)
qed

lemma Search_filter:
  "Search L query uname from to s
     = filter (\<lambda>m. (ToLower L query \<noteq> [] \<longrightarrow>
                        occursIn (ToLower L query) (ToLower L (Content m))) \<and>
                     (ToLower L uname \<noteq> [] \<longrightarrow> EqualFold L (mUsername m) (ToLower L uname)) \<and>
                     (case from of None \<Rightarrow> True | Some f \<Rightarrow> f \<le> Timestamp m) \<and>
                     (case to of None \<Rightarrow> True | Some t \<Rightarrow> Timestamp m \<le> t)) (messages s)"
  by (simp add: Search_def Let_def Search_loop_filter contains_occursIn)

text \<open>
  \<open>Search\<close> returns the messages that satisfy the request whenever the library keeps two
  promises for the strings of the request: \<open>ToLower\<close> gives the empty string for the empty
  string only, and a name is the request's username up to case exactly when it is the
  lower-case form of that username up to case.
\<close>

lemma Search_satisfies:
  assumes "ToLower L (Query p) = [] \<longleftrightarrow> Query p = []"
    and "ToLower L (sUsername p) = [] \<longleftrightarrow> sUsername p = []"
    and "\<And>a. EqualFold L a (ToLower L (sUsername p)) = EqualFold L a (sUsername p)"
  shows "Search L (Query p) (sUsername p) (From p) (To p) s = filter (satisfies L p) (messages s)"
proof -
  have "\<And>m. ((ToLower L (Query p) \<noteq> [] \<longrightarrow>
                        occursIn (ToLower L (Query p)) (ToLower L (Content m))) \<and>
                     (ToLower L (sUsername p) \<noteq> [] \<longrightarrow>
                        EqualFold L (mUsername m) (ToLower L (sUsername p))) \<and>
                     (case From p of None \<Rightarrow> True | Some f \<Rightarrow> f \<le> Timestamp m) \<and>
                     (case To p of None \<Rightarrow> True | Some t \<Rightarrow> Timestamp m \<le> t))
                = satisfies L p m"
    using assms by (simp add: satisfies_def sameUpToCase_def)
  then show ?thesis by (simp add: Search_filter)
qed

lemma dotted_facts:
  "ToLower sample_lib dotted_I = ''i''"
  "EqualFold sample_lib dotted_I dotted_I"
  "\<not> EqualFold sample_lib dotted_I ''i''"
  by (simp_all add: sample_lib_def dotted_I_def lowerByte_def)

lemma Search_dotted:
  "Search sample_lib [] dotted_I None None (store dotted_server) = []"
proof -
  have e: "ToLower sample_lib [] = []" by (simp add: sample_lib_def)
  have m: "messages (store dotted_server) = [dotted_message]"
    by (simp add: dotted_server_def)
  show ?thesis
    using dotted_facts(3)
    by (simp add: Search_def Let_def e m dotted_facts(1) dotted_message_def)
qed

text \<open>
  Claim C6, where the code departs from it. The log of the sample server holds one
  message, whose author's username is the capital I with dot above. A search for exactly
  this username, which is the author's up to case, finds nothing: \<open>Search\<close> compares the
  author's name with the lower-case form of the requested name, which is \<open>i\<close>, and the
  two are not the same up to case. \<open>handleSearch\<close> answers with an empty result: the
  queue of the connection, empty before, holds the response \<open>0 result(s)\<close> with no message.
\<close>

theorem search_misses_exact_username:
  "mUsername dotted_message = sUsername dotted_search \<and>
   sameUpToCase sample_lib (mUsername dotted_message) (sUsername dotted_search) \<and>
   messages (store dotted_server) = [dotted_message] \<and>
   Search sample_lib (Query dotted_search) (sUsername dotted_search) (From dotted_search)
     (To dotted_search) (store dotted_server) = [] \<and>
   handleSearch sample_lib 1 (no_payload\<lparr>asSearch := Some dotted_search\<rparr>) dotted_server
     = Inr (setSend 1
             ((send (heap dotted_server 1))
                \<lparr>buf := [Response True (NResults 0) (Some (Messages []))]\<rparr>)
             dotted_server) \<and>
   map_sum id (\<lambda>st'. buf (send (heap st' 1)))
     (handleSearch sample_lib 1 (no_payload\<lparr>asSearch := Some dotted_search\<rparr>) dotted_server)
     = Inr [Response True (NResults 0) (Some (Messages []))]"
proof -
  have q: "Query dotted_search = []" "sUsername dotted_search = dotted_I"
    "From dotted_search = None" "To dotted_search = None"
    by (simp_all add: dotted_search_def)
  have n: "dotted_I \<noteq> []" by (simp add: dotted_I_def)
  have a: "isAuthenticated (heap dotted_server 1)"
    using isAuthenticated_sample by (simp add: dotted_server_def)
  have c: "\<not> closed (send (heap dotted_server 1))" "spare (send (heap dotted_server 1))"
    "buf (send (heap dotted_server 1)) = []"
    using sample_client1 by (simp_all add: dotted_server_def)
  have h: "handleSearch sample_lib 1 (no_payload\<lparr>asSearch := Some dotted_search\<rparr>) dotted_server
     = sendPacket 1 (Response True (NResults 0) (Some (Messages []))) dotted_server"
    using a n by (simp add: handleSearch_def q Search_dotted sendResponse_def)
  have s: "sendPacket 1 (Response True (NResults 0) (Some (Messages []))) dotted_server
     = Inr (setSend 1
             ((send (heap dotted_server 1))
                \<lparr>buf := [Response True (NResults 0) (Some (Messages []))]\<rparr>)
             dotted_server)"
    using sendPacket_room [OF c(1), of "Response True (NResults 0) (Some (Messages []))"] c(2,3)
    by (simp add: spare_def)
  have m: "messages (store dotted_server) = [dotted_message]"
    by (simp add: dotted_server_def)
  have u: "mUsername dotted_message = sUsername dotted_search"
    by (simp add: dotted_message_def dotted_search_def)
  have f: "sameUpToCase sample_lib (mUsername dotted_message) (sUsername dotted_search)"
    using dotted_facts(2) by (simp add: sameUpToCase_def dotted_message_def dotted_search_def)
  have r: "Search sample_lib (Query dotted_search) (sUsername dotted_search) (From dotted_search)
     (To dotted_search) (store dotted_server) = []"
    unfolding q by (rule Search_dotted)
  have t: "handleSearch sample_lib 1 (no_payload\<lparr>asSearch := Some dotted_search\<rparr>) dotted_server
     = Inr (setSend 1
             ((send (heap dotted_server 1))
                \<lparr>buf := [Response True (NResults 0) (Some (Messages []))]\<rparr>)
             dotted_server)"
    unfolding h by (rule s)
  have b: "map_sum id (\<lambda>st'. buf (send (heap st' 1)))
     (handleSearch sample_lib 1 (no_payload\<lparr>asSearch := Some dotted_search\<rparr>) dotted_server)
     = Inr [Response True (NResults 0) (Some (Messages []))]"
    unfolding t by (simp add: setSend_def)
  show ?thesis by (rule conjI [OF u conjI [OF f conjI [OF m conjI [OF r conjI [OF t b]]]]])
qed

section \<open>Registration\<close>

lemma saveUsersLocked_memory:
  "saveUsersLocked order w s = (s', err) \<Longrightarrow>
     users s' = users s \<and> byID s' = byID s \<and> messages s' = messages s"
  by (auto simp: saveUsersLocked_def Let_def split: prod.splits)

lemma saveMessagesLocked_memory:
  "saveMessagesLocked w s = (s', err) \<Longrightarrow>
     users s' = users s \<and> byID s' = byID s \<and> messages s' = messages s"
  by (auto simp: saveMessagesLocked_def Let_def split: prod.splits)

lemma RegisterUser_taken:
  "users s (ToLower L uname) \<noteq> None \<Longrightarrow>
     RegisterUser L E uname password s = ((None, Some (UsernameTaken uname)), s)"
  by (simp add: RegisterUser_def Let_def)

lemma RegisterUser_fresh:
  assumes "users s (ToLower L uname) = None"
  shows "\<exists>u s' err. RegisterUser L E uname password s = ((Some u, err), s') \<and>
           u = \<lparr>ID = generateID (id_nanos E) (id_rand E), Username = uname,
                PasswordHash = hashPassword L password, CreatedAt = now E\<rparr> \<and>
           users s' = (users s)(ToLower L uname \<mapsto> u) \<and>
           byID s' = (byID s)(ID u \<mapsto> u) \<and>
           messages s' = messages s"
proof -
  let ?u = "\<lparr>ID = generateID (id_nanos E) (id_rand E), Username = uname,
                PasswordHash = hashPassword L password, CreatedAt = now E\<rparr>"
  let ?s2 = "s\<lparr>users := (users s)(ToLower L uname \<mapsto> ?u), byID := (byID s)(ID ?u \<mapsto> ?u)\<rparr>"
  obtain s3 err where sv: "saveUsersLocked (range_users E) (wrote E) ?s2 = (s3, err)"
    by (cases "saveUsersLocked (range_users E) (wrote E) ?s2") auto
  have "RegisterUser L E uname password s = ((Some ?u, err), s3)"
    using assms sv by (simp add: RegisterUser_def Let_def)
  moreover have "users s3 = users ?s2 \<and> byID s3 = byID ?s2 \<and> messages s3 = messages ?s2"
    using saveUsersLocked_memory [OF sv] .
  ultimately show ?thesis by simp
qed

lemma filed_registered:
  assumes "filed L s" and "a \<in> ran (users s)" and "sameLower L (Username a) uname"
  shows "users s (ToLower L uname) \<noteq> None"
proof -
  obtain k where k: "users s k = Some a" using assms(2) by (auto simp: ran_def)
  then have "k = ToLower L (Username a)" using assms(1) by (simp add: filed_def)
  then show ?thesis using k assms(3) by (simp add: sameLower_def)
qed

text \<open>
  Claim C5, as the code has it. The store files every account under the lower-case form
  that \<open>strings.ToLower\<close> gives its username. When an account of the store has a username
  with the same lower-case form as \<open>uname\<close>, \<open>RegisterUser\<close> returns no user and the error
  that the username is taken, and the store it leaves is the store it found: accounts,
  index, messages and files. This holds whatever \<open>strings.ToLower\<close> does.
\<close>

theorem duplicate_username_rejected:
  assumes "filed L s" and "a \<in> ran (users s)" and "sameLower L (Username a) uname"
  shows "RegisterUser L E uname password s = ((None, Some (UsernameTaken uname)), s)"
  using filed_registered [OF assms] by (rule RegisterUser_taken)

lemma sample_ToLower_rene:
  "sample_ToLower [CHR ''R'', CHR ''e'', CHR ''n'', CHR 0xC3, CHR 0xA9]
     = [CHR ''r'', CHR ''e'', CHR ''n'', CHR 0xC3, CHR 0xA9]"
  "sample_ToLower [CHR ''R'', CHR ''E'', CHR ''N'', CHR 0xC3, CHR 0x89]
     = [CHR ''r'', CHR ''e'', CHR ''n'', CHR 0xC3, CHR 0xA9]"
  by code_simp+

lemma rene_facts:
  "ToLower sample_lib (Username rene) = rene_lower"
  "ToLower sample_lib rene_upper = rene_lower"
  by (simp_all add: sample_lib_def rene_def rene_lower_def rene_upper_def sample_ToLower_rene
        del: sample_ToLower.simps)

lemma filed_rene: "filed sample_lib rene_store"
  using rene_facts(1) by (simp add: filed_def rene_store_def)

theorem duplicate_username_rejected_witness:
  "filed sample_lib rene_store \<and> rene \<in> ran (users rene_store) \<and>
   sameLower sample_lib (Username rene) rene_upper \<and>
   RegisterUser sample_lib sample_env rene_upper ''pw'' rene_store
     = ((None, Some (UsernameTaken rene_upper)), rene_store)"
proof -
  have a: "rene \<in> ran (users rene_store)" by (simp add: rene_store_def)
  have c: "sameLower sample_lib (Username rene) rene_upper"
    by (simp add: sameLower_def rene_facts)
  show ?thesis
    using duplicate_username_rejected [OF filed_rene a c, of sample_env "''pw''"]
          filed_rene a c
    by simp
qed

text \<open>
  The claim as the specification words it fails. The name that differs from \<open>Sam\<close> in its
  first letter only, the long s, is \<open>Sam\<close> up to case, and its lower-case form is itself:
  with Sam registered, \<open>RegisterUser\<close> accepts it, and the store holds both accounts.
\<close>

lemma sample_long_s:
  "sample_ToLower [CHR 0xC5, CHR 0xBF, CHR ''a'', CHR ''m''] = [CHR 0xC5, CHR 0xBF, CHR ''a'', CHR ''m'']"
  "sample_ToLower ''Sam'' = ''sam''"
  "sample_fold [CHR 0xC5, CHR 0xBF, CHR ''a'', CHR ''m''] = ''sam''"
  "sample_fold ''Sam'' = ''sam''"
  by code_simp+

lemma long_s_facts:
  "ToLower sample_lib long_s_am = long_s_am"
  "ToLower sample_lib ''Sam'' = ''sam''"
  "EqualFold sample_lib long_s_am ''Sam''"
  "long_s_am \<noteq> ''sam''"
  by (simp_all add: sample_lib_def long_s_am_def sample_long_s
        del: sample_ToLower.simps sample_fold.simps)

lemma RegisterUser_long_s:
  "RegisterUser sample_lib sam_env long_s_am ''pw'' sam_store
     = ((Some long_s_user, None),
        sam_store
          \<lparr>users := (users sam_store)(long_s_am \<mapsto> long_s_user),
           byID := (byID sam_store)(generateID 7 255 \<mapsto> long_s_user),
           dataDir := (dataDir sam_store)
             \<lparr>users_json := marshalUsers (List.map_filter
                 ((users sam_store)(long_s_am \<mapsto> long_s_user)) (range_users sam_env))\<rparr>\<rparr>)"
proof -
  have n: "users sam_store long_s_am = None"
    using long_s_facts(4) by (simp add: sam_store_def)
  have m: "marshalUsers (List.map_filter ((users sam_store)(long_s_am \<mapsto> long_s_user))
             (range_users sam_env)) \<noteq> None"
    using long_s_facts(4)
    by (simp add: marshalUsers_def sam_env_def sam_store_def long_s_am_def sam_def
          long_s_user_def jsonTimeOk_def)
  then obtain d where d: "marshalUsers (List.map_filter
      ((users sam_store)(long_s_am \<mapsto> long_s_user)) (range_users sam_env)) = Some d"
    by blast
  have e: "id_nanos sam_env = 7" "id_rand sam_env = 255" "now sam_env = 9"
    "wrote sam_env = WriteOk"
    by (simp_all add: sam_env_def sample_env_def)
  have h: "hashPassword sample_lib ''pw'' = ''#pw''"
    by (simp add: hashPassword_def sample_lib_def)
  show ?thesis
    using n d
    by (simp add: RegisterUser_def long_s_facts(1) Let_def e h long_s_user_def
          saveUsersLocked_def writeJSON_def WriteFile_def)
qed

theorem long_s_counterexample:
  "users sam_store ''sam'' = Some sam \<and>
   sameUpToCase sample_lib long_s_am (Username sam) \<and>
   fst (RegisterUser sample_lib sam_env long_s_am ''pw'' sam_store) = (Some long_s_user, None) \<and>
   users (snd (RegisterUser sample_lib sam_env long_s_am ''pw'' sam_store)) ''sam'' = Some sam \<and>
   users (snd (RegisterUser sample_lib sam_env long_s_am ''pw'' sam_store)) long_s_am
     = Some long_s_user"
proof -
  have a: "users sam_store ''sam'' = Some sam" by (simp add: sam_store_def)
  have b: "sameUpToCase sample_lib long_s_am (Username sam)"
    using long_s_facts(3) by (simp add: sameUpToCase_def sam_def)
  show ?thesis
    using a b long_s_facts(4) by (simp add: RegisterUser_long_s)
qed

text \<open>
  A second registration right after the first is refused whatever the store was, and the
  handler reports the error to the connection.
\<close>

lemma register_twice:
  assumes "RegisterUser L E v pw s = ((Some a, err), s1)" and "sameLower L v uname"
  shows "RegisterUser L E' uname pw' s1 = ((None, Some (UsernameTaken uname)), s1)"
proof -
  have "users s (ToLower L v) = None"
    using assms(1) by (auto simp: RegisterUser_def Let_def split: if_splits)
  from RegisterUser_fresh [OF this, of E pw] assms(1)
  have "users s1 (ToLower L v) \<noteq> None" by auto
  then have "users s1 (ToLower L uname) \<noteq> None"
    using assms(2) by (simp add: sameLower_def)
  then show ?thesis by (rule RegisterUser_taken)
qed

lemma handleRegister_taken:
  assumes "asAuth raw = Some p" "aUsername p \<noteq> []" "aPassword p \<noteq> []"
    "users (store st) (ToLower L (aUsername p)) \<noteq> None"
  shows "handleRegister L E c raw st
           = sendPacket c (Response False (ErrorPrefix (StoreError (UsernameTaken (aUsername p)))) None) st"
  using assms by (simp add: handleRegister_def RegisterUser_taken sendError_def)

section \<open>Every store is filed under lower-case usernames\<close>

lemma filed_RegisterUser:
  assumes "filed L s" and "RegisterUser L E uname password s = (r, s')"
  shows "filed L s'"
proof (cases "users s (ToLower L uname)")
  case None
  from RegisterUser_fresh [OF this, of E password]
  obtain u s2 err where r: "RegisterUser L E uname password s = ((Some u, err), s2)"
    and u: "u = \<lparr>ID = generateID (id_nanos E) (id_rand E), Username = uname,
                PasswordHash = hashPassword L password, CreatedAt = now E\<rparr>"
    and us: "users s2 = (users s)(ToLower L uname \<mapsto> u)"
    by blast
  have "Username u = uname" using u by simp
  moreover have "s2 = s'" using r assms(2) by simp
  ultimately show ?thesis using assms(1) us by (auto simp: filed_def)
next
  case (Some a)
  then have "s' = s" using assms(2) by (simp add: RegisterUser_def Let_def)
  then show ?thesis using assms(1) by simp
qed

lemma filed_SaveMessage:
  assumes "filed L s" and "SaveMessage w msg s = (s', err)"
  shows "filed L s'"
  using assms saveMessagesLocked_memory [of w "s\<lparr>messages := messages s @ [msg]\<rparr>" s' err]
  by (simp add: SaveMessage_def filed_def)

lemma filed_load_user: "filed L s \<Longrightarrow> filed L (load_user L s u)"
  by (auto simp: filed_def load_user_def Let_def)

lemma filed_foldl_load_user: "filed L s \<Longrightarrow> filed L (foldl (load_user L) s us)"
  by (induction us arbitrary: s) (simp_all add: filed_load_user)

lemma filed_load:
  assumes "filed L s" and "load L s = Inr s'"
  shows "filed L s'"
proof -
  have m: "\<And>t ms. filed L t \<Longrightarrow> filed L (t\<lparr>messages := ms\<rparr>)" by (simp add: filed_def)
  show ?thesis
    using assms filed_foldl_load_user [OF assms(1)]
    by (auto simp: load_def m split: option.splits sum.splits)
qed

lemma filed_New: "New L mk d = Inr s \<Longrightarrow> filed L s"
proof -
  assume n: "New L mk d = Inr s"
  have "filed L \<lparr>users = Map.empty, byID = Map.empty, messages = [], dataDir = d\<rparr>"
    by (simp add: filed_def)
  then show ?thesis using n filed_load by (auto simp: New_def split: if_splits)
qed

section \<open>Saving and loading\<close>

lemma writeJSON_ok:
  "writeJSON WriteOk m file = (file', err) \<Longrightarrow> (err = None \<longleftrightarrow> m \<noteq> None) \<and> (m \<noteq> None \<longrightarrow> file' = m)"
  by (auto simp: writeJSON_def WriteFile_def split: option.splits)

lemma writeJSON_fails: "\<exists>file' e. writeJSON (WriteFails rest) m file = (file', Some e)"
  by (auto simp: writeJSON_def WriteFile_def split: option.splits)

lemma toValidUTF8_valid: "validUTF8 s \<Longrightarrow> toValidUTF8 s = s"
proof (induction s rule: toValidUTF8.induct)
  case 1
  show ?case by simp
next
  case (2 c s)
  let ?n = "runeLen (c # s)"
  from "2.prems" have n: "?n \<noteq> 0" and v: "validUTF8 (drop ?n (c # s))"
    by (simp_all add: Let_def split: if_splits)
  have "toValidUTF8 (drop ?n (c # s)) = drop ?n (c # s)"
    using "2.IH"(2) [OF refl n v] .
  then have "toValidUTF8 (c # s) = take ?n (c # s) @ drop ?n (c # s)"
    using n by (simp add: Let_def)
  then show ?case by (simp only: append_take_drop_id)
qed

lemma jsonUser_safe: "jsonSafeUser u \<Longrightarrow> jsonUser u = u"
  by (simp add: jsonSafeUser_def jsonUser_def toValidUTF8_valid)

lemma jsonMessage_safe: "jsonSafeMessage m \<Longrightarrow> jsonMessage m = m"
  by (simp add: jsonSafeMessage_def jsonMessage_def toValidUTF8_valid)

lemma marshalUsers_safe:
  assumes "\<forall>u \<in> set us. jsonSafeUser u"
  shows "\<exists>d. marshalUsers us = Some d \<and> asUsers d = Some us"
proof -
  have t: "list_all (\<lambda>u. jsonTimeOk (CreatedAt u)) us"
    using assms by (simp add: list_all_iff jsonSafeUser_def)
  have "map jsonUser us = us"
    using assms by (induction us) (simp_all add: jsonUser_safe)
  then show ?thesis using t by (simp add: marshalUsers_def)
qed

lemma marshalMessages_safe:
  assumes "\<forall>m \<in> set ms. jsonSafeMessage m"
  shows "\<exists>d. marshalMessages ms = Some d \<and> asMessages d = Some ms"
proof -
  have t: "list_all (\<lambda>m. jsonTimeOk (Timestamp m)) ms"
    using assms by (simp add: list_all_iff jsonSafeMessage_def)
  have "map jsonMessage ms = ms"
    using assms by (induction ms) (simp_all add: jsonMessage_safe)
  then show ?thesis using t by (simp add: marshalMessages_def)
qed

lemma saveUsersLocked_WriteOk:
  assumes "marshalUsers (List.map_filter (users s) order) = Some d"
  shows "saveUsersLocked order WriteOk s = (s\<lparr>dataDir := (dataDir s)\<lparr>users_json := Some d\<rparr>\<rparr>, None)"
  using assms by (simp add: saveUsersLocked_def writeJSON_def WriteFile_def)

lemma saveMessagesLocked_WriteOk:
  assumes "marshalMessages (messages s) = Some d"
  shows "saveMessagesLocked WriteOk s = (s\<lparr>dataDir := (dataDir s)\<lparr>messages_json := Some d\<rparr>\<rparr>, None)"
  using assms by (simp add: saveMessagesLocked_def writeJSON_def WriteFile_def)

lemma foldl_load_user_rest:
  "messages (foldl (load_user L) t us) = messages t \<and>
   dataDir (foldl (load_user L) t us) = dataDir t"
  by (induction us arbitrary: t) (simp_all add: load_user_def Let_def)

lemma users_foldl_load_user:
  assumes "filed L s"
  shows "users (foldl (load_user L) t (List.map_filter (users s) order)) k
           = (if k \<in> set order \<and> users s k \<noteq> None then users s k else users t k)"
proof (induction order arbitrary: t)
  case Nil
  show ?case by simp
next
  case (Cons k0 ks)
  show ?case
  proof (cases "users s k0")
    case None
    then show ?thesis using Cons.IH [of t] by auto
  next
    case (Some u)
    then have k0: "ToLower L (Username u) = k0" using assms by (auto simp: filed_def)
    have "users (load_user L t u) = (users t)(k0 \<mapsto> u)"
      by (simp add: load_user_def Let_def k0)
    then show ?thesis using Some Cons.IH [of "load_user L t u"]
      by auto
  qed
qed

lemma byID_foldl_load_user:
  assumes "indexed s"
  shows "byID (foldl (load_user L) t (List.map_filter (users s) order)) i
           = (if \<exists>k \<in> set order. \<exists>u. users s k = Some u \<and> ID u = i then byID s i else byID t i)"
proof (induction order arbitrary: t)
  case Nil
  show ?case by simp
next
  case (Cons k0 ks)
  show ?case
  proof (cases "users s k0")
    case None
    then show ?thesis using Cons.IH [of t] by auto
  next
    case (Some u)
    then have "u \<in> ran (users s)" by (auto simp: ran_def)
    then have b: "byID s (ID u) = Some u" using assms by (simp add: indexed_def)
    have "byID (load_user L t u) = (byID t)(ID u \<mapsto> u)"
      by (simp add: load_user_def Let_def)
    then show ?thesis using Some b Cons.IH [of "load_user L t u"]
      by auto
  qed
qed

text \<open>
  Claim C9, as the code has it. Take a store filed under lower-case usernames whose
  accounts and messages JSON can hold as they are: their strings are valid UTF-8 and their
  times are within the years 0 to 9999. With file writes that succeed, saving the
  accounts (in whatever order \<open>range\<close> walks the map) and the messages returns no error,
  and \<open>New\<close> on the directory gives a store with the same accounts under the same keys and
  the same messages in the same order (and the same index by id, when the index held
  exactly the accounts).
\<close>

theorem save_load_roundtrip:
  assumes "filed L s" and "set order = dom (users s)"
    and "\<forall>u \<in> ran (users s). jsonSafeUser u"
    and "\<forall>m \<in> set (messages s). jsonSafeMessage m"
    and "saveUsersLocked order WriteOk s = (s1, e1)"
    and "saveMessagesLocked WriteOk s1 = (s2, e2)"
  shows "e1 = None \<and> e2 = None \<and>
         (\<exists>s'. New L True (dataDir s2) = Inr s' \<and>
            users s' = users s \<and> messages s' = messages s \<and>
            (indexed s \<longrightarrow> byID s' = byID s) \<and> dataDir s' = dataDir s2)"
proof -
  let ?us = "List.map_filter (users s) order"
  have "\<forall>u \<in> set ?us. jsonSafeUser u"
    using assms(3) by (auto simp: List.map_filter_def ran_def)
  from marshalUsers_safe [OF this]
  obtain du where du: "marshalUsers ?us = Some du" and ru: "asUsers du = Some ?us"
    by blast
  have s1: "s1 = s\<lparr>dataDir := (dataDir s)\<lparr>users_json := Some du\<rparr>\<rparr>" and e1: "e1 = None"
    using saveUsersLocked_WriteOk [OF du] assms(5) by simp_all
  have m1: "messages s1 = messages s" using s1 by simp
  from marshalMessages_safe [OF assms(4)]
  obtain dm where dm: "marshalMessages (messages s1) = Some dm"
    and rm: "asMessages dm = Some (messages s)"
    using m1 by auto
  have s2: "s2 = s1\<lparr>dataDir := (dataDir s1)\<lparr>messages_json := Some dm\<rparr>\<rparr>" and e2: "e2 = None"
    using saveMessagesLocked_WriteOk [OF dm] assms(6) by simp_all
  let ?e = "\<lparr>users = Map.empty, byID = Map.empty, messages = [], dataDir = dataDir s2\<rparr>"
  let ?t = "foldl (load_user L) ?e ?us"
  have d2: "users_json (dataDir s2) = Some du" "messages_json (dataDir s2) = Some dm"
    using s1 s2 by simp_all
  have rest: "messages ?t = [] \<and> dataDir ?t = dataDir s2"
    using foldl_load_user_rest [of L ?e ?us] by simp
  have ld: "New L True (dataDir s2) = Inr (?t\<lparr>messages := messages s\<rparr>)"
    using d2 ru rm rest by (simp add: New_def load_def)
  have u: "users ?t = users s"
  proof
    fix k
    show "users ?t k = users s k"
      using users_foldl_load_user [OF assms(1), of ?e order k] assms(2)
      by (cases "users s k") auto
  qed
  have b: "indexed s \<Longrightarrow> byID ?t = byID s"
  proof
    fix i
    assume ix: "indexed s"
    show "byID ?t i = byID s i"
    proof (cases "byID s i")
      case None
      have "\<not> (\<exists>k \<in> set order. \<exists>u. users s k = Some u \<and> ID u = i)"
      proof
        assume "\<exists>k \<in> set order. \<exists>u. users s k = Some u \<and> ID u = i"
        then obtain k u where "users s k = Some u" "ID u = i" by blast
        then have "u \<in> ran (users s) \<and> ID u = i" by (auto simp: ran_def)
        then have "byID s i = Some u" using ix by (simp add: indexed_def)
        then show False using None by simp
      qed
      then show ?thesis using byID_foldl_load_user [OF ix, of L ?e order i] None by simp
    next
      case (Some u)
      then have "u \<in> ran (users s)" "ID u = i" using ix by (auto simp: indexed_def)
      then obtain k where "users s k = Some u" by (auto simp: ran_def)
      then have "\<exists>k \<in> set order. \<exists>u. users s k = Some u \<and> ID u = i"
        using assms(2) \<open>ID u = i\<close> by auto
      then show ?thesis using byID_foldl_load_user [OF ix, of L ?e order i] by simp
    qed
  qed
  show ?thesis using e1 e2 ld u b rest by simp
qed

lemma filed_sample: "filed sample_lib sample_store"
proof -
  have "sample_ToLower ''Alice'' = ''alice''" by code_simp
  then show ?thesis
    by (simp add: filed_def sample_store_def alice_def sample_lib_def del: sample_ToLower.simps)
qed

lemma indexed_sample: "indexed sample_store"
  by (auto simp: indexed_def sample_store_def alice_def ran_def)

lemma valid_sample_strings:
  "validUTF8 ''1-0001''" "validUTF8 ''Alice''" "validUTF8 ''#secret''" "validUTF8 ''alice''"
  "validUTF8 ''1''" "validUTF8 ''2''" "validUTF8 ''3''" "validUTF8 ''2-0002''" "validUTF8 ''bob''"
  "validUTF8 ''hello world''" "validUTF8 ''goodbye''" "validUTF8 ''hello again''"
  by code_simp+

lemma jsonSafe_sample:
  "\<forall>u \<in> ran (users sample_store). jsonSafeUser u"
  "\<forall>m \<in> set (messages sample_store). jsonSafeMessage m"
  by (simp_all add: sample_store_def jsonSafeUser_def jsonSafeMessage_def alice_def msg1_def
        msg2_def msg3_def valid_sample_strings jsonTimeOk_def del: validUTF8.simps)

theorem save_load_roundtrip_witness:
  "filed sample_lib sample_store \<and> set [''alice''] = dom (users sample_store) \<and>
   ran (users sample_store) = {alice} \<and> jsonSafeUser alice \<and>
   list_all jsonSafeMessage (messages sample_store) \<and>
   snd (saveUsersLocked [''alice''] WriteOk sample_store) = None \<and>
   snd (saveMessagesLocked WriteOk (fst (saveUsersLocked [''alice''] WriteOk sample_store))) = None \<and>
   (\<exists>s'. New sample_lib True
            (dataDir (fst (saveMessagesLocked WriteOk
                        (fst (saveUsersLocked [''alice''] WriteOk sample_store))))) = Inr s' \<and>
      users s' = users sample_store \<and> messages s' = [msg1, msg2, msg3] \<and>
      byID s' = byID sample_store)"
proof -
  let ?r1 = "saveUsersLocked [''alice''] WriteOk sample_store"
  let ?r2 = "saveMessagesLocked WriteOk (fst ?r1)"
  have o: "set [''alice''] = dom (users sample_store)" by (simp add: sample_store_def)
  have a: "?r1 = (fst ?r1, snd ?r1)" by simp
  have b: "?r2 = (fst ?r2, snd ?r2)" by simp
  have m: "messages sample_store = [msg1, msg2, msg3]" by (simp add: sample_store_def)
  have r: "ran (users sample_store) = {alice}" by (simp add: sample_store_def)
  have ja: "jsonSafeUser alice" using jsonSafe_sample(1) r by simp
  have jm: "list_all jsonSafeMessage (messages sample_store)"
    using jsonSafe_sample(2) by (simp only: list_all_iff)
  from save_load_roundtrip [OF filed_sample o jsonSafe_sample a b] indexed_sample
  obtain s' where s: "snd ?r1 = None" "snd ?r2 = None"
    "New sample_lib True (dataDir (fst ?r2)) = Inr s'"
    "users s' = users sample_store" "messages s' = messages sample_store"
    "byID s' = byID sample_store" by blast
  have e: "\<exists>s'. New sample_lib True (dataDir (fst ?r2)) = Inr s' \<and>
      users s' = users sample_store \<and> messages s' = [msg1, msg2, msg3] \<and>
      byID s' = byID sample_store"
    using s(3-6) m by simp
  show ?thesis
    by (rule conjI [OF filed_sample conjI [OF o conjI [OF r conjI [OF ja conjI [OF jm
          conjI [OF s(1) conjI [OF s(2) e]]]]]]])
qed

text \<open>
  The claim as the specification words it fails for a message that JSON cannot hold as it
  is. The store whose one message has the content of the single byte FF saves its
  messages without error, and \<open>New\<close> on the directory gives a store whose message has the
  three bytes of U+FFFD for content.
\<close>

lemma saveMessages_raw:
  "saveMessagesLocked WriteOk raw_store
     = (raw_store\<lparr>dataDir := \<lparr>users_json = None,
                     messages_json = Some \<lparr>asUsers = Some [messageAsUser raw_reloaded],
                                            asMessages = Some [raw_reloaded]\<rparr>\<rparr>\<rparr>, None)"
proof -
  have v: "toValidUTF8 ''5'' = ''5''" "toValidUTF8 ''1-0001'' = ''1-0001''"
    "toValidUTF8 ''alice'' = ''alice''"
    "toValidUTF8 [CHR 0xFF] = [CHR 0xEF, CHR 0xBF, CHR 0xBD]"
    by code_simp+
  have j: "jsonMessage raw_message = raw_reloaded"
    by (simp add: jsonMessage_def raw_message_def raw_reloaded_def v del: toValidUTF8.simps)
  have t: "jsonTimeOk (Timestamp raw_message)"
    by (simp add: jsonTimeOk_def raw_message_def)
  have "marshalMessages (messages raw_store)
          = Some \<lparr>asUsers = Some [messageAsUser raw_reloaded], asMessages = Some [raw_reloaded]\<rparr>"
    using t by (simp add: marshalMessages_def raw_store_def j)
  from saveMessagesLocked_WriteOk [OF this] show ?thesis
    by (simp add: raw_store_def)
qed

theorem invalid_utf8_counterexample:
  "snd (saveMessagesLocked WriteOk raw_store) = None \<and>
   map_sum id messages (New sample_lib True (dataDir (fst (saveMessagesLocked WriteOk raw_store))))
     = Inr [raw_reloaded] \<and>
   messages raw_store = [raw_message] \<and>
   Content raw_message = [CHR 0xFF] \<and>
   Content raw_reloaded = [CHR 0xEF, CHR 0xBF, CHR 0xBD]"
  by (simp add: saveMessages_raw New_def load_def)
     (simp add: raw_store_def raw_message_def raw_reloaded_def)

lemma saveUsersLocked_fails:
  "\<exists>s' e. saveUsersLocked order (WriteFails rest) s = (s', Some e) \<and> users s' = users s \<and>
     byID s' = byID s \<and> messages s' = messages s"
proof -
  obtain fl e where "writeJSON (WriteFails rest) (marshalUsers (List.map_filter (users s) order))
      (users_json (dataDir s)) = (fl, Some e)"
    using writeJSON_fails by blast
  then show ?thesis by (simp add: saveUsersLocked_def Let_def)
qed

lemma saveMessagesLocked_fails:
  "\<exists>s' e. saveMessagesLocked (WriteFails rest) s = (s', Some e) \<and> users s' = users s \<and>
     byID s' = byID s \<and> messages s' = messages s"
proof -
  obtain fl e where "writeJSON (WriteFails rest) (marshalMessages (messages s))
      (messages_json (dataDir s)) = (fl, Some e)"
    using writeJSON_fails by blast
  then show ?thesis by (simp add: saveMessagesLocked_def Let_def)
qed

lemma RegisterUser_write_fails:
  assumes "wrote E = WriteFails rest" and "users s (ToLower L uname) = None"
  shows "\<exists>u s' e. RegisterUser L E uname password s = ((Some u, Some e), s') \<and>
           Username u = uname \<and> users s' (ToLower L uname) = Some u \<and>
           byID s' (ID u) = Some u \<and> messages s' = messages s"
proof -
  let ?u = "\<lparr>ID = generateID (id_nanos E) (id_rand E), Username = uname,
              PasswordHash = hashPassword L password, CreatedAt = now E\<rparr>"
  let ?s2 = "s\<lparr>users := (users s)(ToLower L uname \<mapsto> ?u), byID := (byID s)(ID ?u \<mapsto> ?u)\<rparr>"
  obtain s3 e where sv: "saveUsersLocked (range_users E) (WriteFails rest) ?s2 = (s3, Some e)"
    and m: "users s3 = users ?s2" "byID s3 = byID ?s2" "messages s3 = messages ?s2"
    using saveUsersLocked_fails [of "range_users E" rest ?s2] by blast
  have "RegisterUser L E uname password s = ((Some ?u, Some e), s3)"
    using assms sv by (simp add: RegisterUser_def Let_def)
  then show ?thesis using m by simp
qed

lemma SaveMessage_write_fails:
  "\<exists>s' e. SaveMessage (WriteFails rest) msg s = (s', Some e) \<and>
     messages s' = messages s @ [msg] \<and> users s' = users s"
  using saveMessagesLocked_fails [of rest "s\<lparr>messages := messages s @ [msg]\<rparr>"]
  by (auto simp: SaveMessage_def)

lemma worker_write_fails:
  assumes "buf (jobs st) = msg # js"
  shows "\<exists>st' e. worker (WriteFails rest) st = Some st' \<and>
           logs st' = logs st @ [StoreSaveError e] \<and>
           messages (store st') = messages (store st) @ [msg] \<and>
           buf (jobs st') = js"
proof -
  obtain s' e where "SaveMessage (WriteFails rest) msg (store st) = (s', Some e)"
    "messages s' = messages (store st) @ [msg]"
    using SaveMessage_write_fails by blast
  then show ?thesis using assms by (simp add: worker_def logPrintf_def)
qed

text \<open>
  Claim C4, as the code has it. When the write of the backing file fails, \<open>RegisterUser\<close> and
  \<open>SaveMessage\<close> return the error to their caller, and the memory has advanced all the same:
  the new account is in the store under its lower-case name, the new message is at the end
  of the log. The worker, which calls \<open>SaveMessage\<close>, logs the error and goes on.
\<close>

theorem write_failure_returned:
  assumes "wrote E = WriteFails rest"
  shows "(users s (ToLower L uname) = None \<longrightarrow>
           (\<exists>u s' e. RegisterUser L E uname password s = ((Some u, Some e), s') \<and>
              Username u = uname \<and> users s' (ToLower L uname) = Some u)) \<and>
         (\<exists>s' e. SaveMessage (wrote E) msg s = (s', Some e) \<and>
              messages s' = messages s @ [msg]) \<and>
         (buf (jobs st) = msg # js \<longrightarrow>
           (\<exists>st' e. worker (wrote E) st = Some st' \<and>
              logs st' = logs st @ [StoreSaveError e] \<and>
              messages (store st') = messages (store st) @ [msg]))"
proof -
  have "users s (ToLower L uname) = None \<Longrightarrow>
          \<exists>u s' e. RegisterUser L E uname password s = ((Some u, Some e), s') \<and>
              Username u = uname \<and> users s' (ToLower L uname) = Some u"
    using RegisterUser_write_fails [OF assms, of s L uname password] by blast
  moreover have "\<exists>s' e. SaveMessage (wrote E) msg s = (s', Some e) \<and>
              messages s' = messages s @ [msg]"
    using SaveMessage_write_fails [of rest msg s] assms by auto
  moreover have "buf (jobs st) = msg # js \<Longrightarrow>
          \<exists>st' e. worker (wrote E) st = Some st' \<and>
              logs st' = logs st @ [StoreSaveError e] \<and>
              messages (store st') = messages (store st) @ [msg]"
    using worker_write_fails [of st msg js rest] assms by auto
  ultimately show ?thesis by blast
qed

lemma sample_ToLower_bob: "sample_ToLower ''bob'' = ''bob''"
  by code_simp

lemma ToLower_bob: "ToLower sample_lib ''bob'' = ''bob''"
  by (simp add: sample_lib_def sample_ToLower_bob del: sample_ToLower.simps)

lemma RegisterUser_sample_fails:
  "RegisterUser sample_lib failing_env ''bob'' ''pw'' sample_store
     = ((Some \<lparr>ID = generateID 7 255, Username = ''bob'', PasswordHash = ''#pw'', CreatedAt = 9\<rparr>,
         Some WriteError),
        sample_store\<lparr>users := (users sample_store)(''bob'' \<mapsto>
            \<lparr>ID = generateID 7 255, Username = ''bob'', PasswordHash = ''#pw'', CreatedAt = 9\<rparr>),
          byID := (byID sample_store)(generateID 7 255 \<mapsto>
            \<lparr>ID = generateID 7 255, Username = ''bob'', PasswordHash = ''#pw'', CreatedAt = 9\<rparr>)\<rparr>)"
proof -
  have m: "marshalUsers [alice, \<lparr>ID = generateID 7 255, Username = ''bob'', PasswordHash = ''#pw'',
                                 CreatedAt = 9\<rparr>] \<noteq> None"
    by (simp add: marshalUsers_def jsonTimeOk_def alice_def)
  show ?thesis using m
    by (simp add: RegisterUser_def ToLower_bob sample_store_def sample_env_def failing_env_def
          saveUsersLocked_def writeJSON_def WriteFile_def hashPassword_def Let_def
          List.map_filter_def)
       (auto simp: sample_lib_def WriteFile_def)
qed

lemma SaveMessage_sample_fails:
  "SaveMessage (WriteFails None) msg1 sample_store
     = (sample_store\<lparr>messages := [msg1, msg2, msg3, msg1]\<rparr>, Some WriteError)"
proof -
  have m: "marshalMessages [msg1, msg2, msg3, msg1] \<noteq> None"
    by (simp add: marshalMessages_def jsonTimeOk_def msg1_def msg2_def msg3_def)
  show ?thesis using m
    by (auto simp: SaveMessage_def saveMessagesLocked_def writeJSON_def WriteFile_def
          sample_store_def)
qed

theorem write_failure_returned_witness:
  "wrote failing_env = WriteFails None \<and>
   users sample_store (ToLower sample_lib ''bob'') = None \<and>
   buf (jobs (sample_server\<lparr>jobs := (make_chan jobsSize)\<lparr>buf := [msg1]\<rparr>\<rparr>)) = [msg1] \<and>
   (\<exists>u s' e. RegisterUser sample_lib failing_env ''bob'' ''pw'' sample_store
        = ((Some u, Some e), s') \<and> users s' ''bob'' = Some u) \<and>
   (\<exists>s' e. SaveMessage (WriteFails None) msg1 sample_store = (s', Some e) \<and>
        messages s' = messages sample_store @ [msg1]) \<and>
   (\<exists>st' e. worker (WriteFails None) (sample_server\<lparr>jobs := (make_chan jobsSize)\<lparr>buf := [msg1]\<rparr>\<rparr>)
        = Some st' \<and> logs st' = [StoreSaveError e])"
proof -
  have w: "wrote failing_env = WriteFails None" by (simp add: failing_env_def)
  have n: "users sample_store (ToLower sample_lib ''bob'') = None"
    by (simp add: ToLower_bob sample_store_def)
  have j: "buf (jobs (sample_server\<lparr>jobs := (make_chan jobsSize)\<lparr>buf := [msg1]\<rparr>\<rparr>)) = [msg1]"
    by simp
  have l: "logs (sample_server\<lparr>jobs := (make_chan jobsSize)\<lparr>buf := [msg1]\<rparr>\<rparr>) = []"
    by (simp add: sample_server_def)
  show ?thesis
    using write_failure_returned [OF w, of sample_store sample_lib "''bob''" "''pw''" msg1
            "sample_server\<lparr>jobs := (make_chan jobsSize)\<lparr>buf := [msg1]\<rparr>\<rparr>" "[]"]
          n j l w
    by (simp add: ToLower_bob, blast)
qed

text \<open>
  The claim as the specification words it fails: with a write that fails, both operations
  return an error to their caller.
\<close>

theorem write_failure_counterexample:
  "snd (fst (RegisterUser sample_lib failing_env ''bob'' ''pw'' sample_store)) = Some WriteError \<and>
   snd (SaveMessage (WriteFails None) msg1 sample_store) = Some WriteError"
  by (simp add: RegisterUser_sample_fails SaveMessage_sample_fails)

text \<open>
  \<open>handleRegister\<close> then answers the registration of Bob with an error response and leaves
  the connection without identity, while the account exists.
\<close>

lemma handleRegister_write_fails:
  "case handleRegister sample_lib failing_env 2 bob_auth sample_server of
      Inl _ \<Rightarrow> False
    | Inr st' \<Rightarrow>
        buf (send (heap st' 2)) = [Response False (ErrorPrefix (StoreError WriteError)) None] \<and>
        \<not> isAuthenticated (heap st' 2) \<and>
        users (store st') ''bob'' \<noteq> None"
proof -
  have s: "store sample_server = sample_store" by (simp add: sample_server_def)
  have h: "heap sample_server 2 = newClient" by (simp add: sample_server_def)
  show ?thesis
    by (simp add: RegisterUser_sample_fails handleRegister_def
          bob_auth_def no_payload_def s sendError_def sendPacket_def trySend_def h
          newClient_def make_chan_def sendBufSize_def setSend_def isAuthenticated_def)
qed

section \<open>The hub\<close>

lemma trySend_room:
  "\<not> closed ch \<Longrightarrow> spare ch \<Longrightarrow> trySend ch x = Enqueued (ch\<lparr>buf := buf ch @ [x]\<rparr>)"
  by (simp add: trySend_def spare_def)

lemma trySend_full: "\<not> closed ch \<Longrightarrow> \<not> spare ch \<Longrightarrow> trySend ch x = WouldBlock"
  by (simp add: trySend_def spare_def)

lemma closeChan_open: "\<not> closed ch \<Longrightarrow> closeChan ch = Inr (ch\<lparr>closed := True\<rparr>)"
  by (simp add: closeChan_def)

text \<open>One turn of the loop, for a client with room and for a client without.\<close>

lemma fanout_Cons_room:
  assumes "\<not> closed (send (heap st c))" and "spare (send (heap st c))"
  shows "fanout d (c # cs) st
           = fanout d cs (setSend c ((send (heap st c))\<lparr>buf := buf (send (heap st c)) @ [d]\<rparr>) st)"
  using assms by (simp add: trySend_room)

lemma fanout_Cons_full:
  assumes "\<not> closed (send (heap st c))" and "\<not> spare (send (heap st c))"
  shows "fanout d (c # cs) st
           = fanout d cs (logPrintf (HubDropped c)
               (setSend c ((send (heap st c))\<lparr>closed := True\<rparr>) (deleteClient c st)))"
  using assms by (simp add: trySend_full closeChan_open deleteClient_def)

lemma fanout_effect:
  assumes "distinct order" and "\<forall>c \<in> set order. \<not> closed (send (heap st c))"
  shows "\<exists>st'. fanout d order st = Inr st' \<and>
           clients (hub st') = clients (hub st) - {c \<in> set order. \<not> spare (send (heap st c))} \<and>
           broadcast (hub st') = broadcast (hub st) \<and>
           (\<forall>c. heap st' c =
              (if c \<in> set order then
                 (if spare (send (heap st c))
                  then (heap st c)\<lparr>send := (send (heap st c))\<lparr>buf := buf (send (heap st c)) @ [d]\<rparr>\<rparr>
                  else (heap st c)\<lparr>send := (send (heap st c))\<lparr>closed := True\<rparr>\<rparr>)
               else heap st c)) \<and>
           store st' = store st \<and> jobs st' = jobs st \<and> online st' = online st"
  using assms
proof (induction order arbitrary: st)
  case Nil
  show ?case by simp
next
  case (Cons c cs)
  have open_c: "\<not> closed (send (heap st c))" using Cons.prems(2) by simp
  have notin: "c \<notin> set cs" and dist: "distinct cs" using Cons.prems(1) by simp_all
  show ?case
  proof (cases "spare (send (heap st c))")
    case True
    let ?st1 = "setSend c ((send (heap st c))\<lparr>buf := buf (send (heap st c)) @ [d]\<rparr>) st"
    have step: "fanout d (c # cs) st = fanout d cs ?st1"
      using open_c True by (rule fanout_Cons_room)
    have same: "\<And>x. x \<noteq> c \<Longrightarrow> heap ?st1 x = heap st x" by (simp add: setSend_def)
    have at_c: "heap ?st1 c = (heap st c)\<lparr>send := (send (heap st c))\<lparr>buf := buf (send (heap st c)) @ [d]\<rparr>\<rparr>"
      by (simp add: setSend_def)
    have rest: "hub ?st1 = hub st" "store ?st1 = store st" "jobs ?st1 = jobs st"
      "online ?st1 = online st" by (simp_all add: setSend_def)
    have same_cs: "\<forall>x \<in> set cs. heap ?st1 x = heap st x"
    proof
      fix x
      assume "x \<in> set cs"
      then have "x \<noteq> c" using notin by auto
      then show "heap ?st1 x = heap st x" by (rule same)
    qed
    have op: "\<forall>x \<in> set cs. \<not> closed (send (heap ?st1 x))"
      using Cons.prems(2) same_cs by simp
    from Cons.IH [OF dist op] obtain st' where
      r: "fanout d cs ?st1 = Inr st'"
      and cl: "clients (hub st') = clients (hub ?st1) - {x \<in> set cs. \<not> spare (send (heap ?st1 x))}"
      and br: "broadcast (hub st') = broadcast (hub ?st1)"
      and hp: "\<forall>x. heap st' x =
              (if x \<in> set cs then
                 (if spare (send (heap ?st1 x))
                  then (heap ?st1 x)\<lparr>send := (send (heap ?st1 x))\<lparr>buf := buf (send (heap ?st1 x)) @ [d]\<rparr>\<rparr>
                  else (heap ?st1 x)\<lparr>send := (send (heap ?st1 x))\<lparr>closed := True\<rparr>\<rparr>)
               else heap ?st1 x)"
      and ot: "store st' = store ?st1" "jobs st' = jobs ?st1" "online st' = online ?st1"
      by blast
    have cl': "clients (hub st') = clients (hub st) - {x \<in> set (c # cs). \<not> spare (send (heap st x))}"
      using cl rest(1) same_cs notin True by auto
    have hp': "\<forall>x. heap st' x =
              (if x \<in> set (c # cs) then
                 (if spare (send (heap st x))
                  then (heap st x)\<lparr>send := (send (heap st x))\<lparr>buf := buf (send (heap st x)) @ [d]\<rparr>\<rparr>
                  else (heap st x)\<lparr>send := (send (heap st x))\<lparr>closed := True\<rparr>\<rparr>)
               else heap st x)"
    proof
      fix x
      show "heap st' x =
              (if x \<in> set (c # cs) then
                 (if spare (send (heap st x))
                  then (heap st x)\<lparr>send := (send (heap st x))\<lparr>buf := buf (send (heap st x)) @ [d]\<rparr>\<rparr>
                  else (heap st x)\<lparr>send := (send (heap st x))\<lparr>closed := True\<rparr>\<rparr>)
               else heap st x)"
      proof (cases "x = c")
        case True
        then show ?thesis using hp notin at_c \<open>spare (send (heap st c))\<close> by simp
      next
        case False
        then show ?thesis using hp same by simp
      qed
    qed
    show ?thesis using step r cl' br hp' ot rest by simp
  next
    case False
    let ?st1 = "logPrintf (HubDropped c)
               (setSend c ((send (heap st c))\<lparr>closed := True\<rparr>) (deleteClient c st))"
    have step: "fanout d (c # cs) st = fanout d cs ?st1"
      using open_c False by (rule fanout_Cons_full)
    have same: "\<And>x. x \<noteq> c \<Longrightarrow> heap ?st1 x = heap st x"
      by (simp add: setSend_def logPrintf_def deleteClient_def)
    have at_c: "heap ?st1 c = (heap st c)\<lparr>send := (send (heap st c))\<lparr>closed := True\<rparr>\<rparr>"
      by (simp add: setSend_def logPrintf_def deleteClient_def)
    have rest: "clients (hub ?st1) = clients (hub st) - {c}"
      "broadcast (hub ?st1) = broadcast (hub st)" "store ?st1 = store st" "jobs ?st1 = jobs st"
      "online ?st1 = online st" by (simp_all add: setSend_def logPrintf_def deleteClient_def)
    have same_cs: "\<forall>x \<in> set cs. heap ?st1 x = heap st x"
    proof
      fix x
      assume "x \<in> set cs"
      then have "x \<noteq> c" using notin by auto
      then show "heap ?st1 x = heap st x" by (rule same)
    qed
    have op: "\<forall>x \<in> set cs. \<not> closed (send (heap ?st1 x))"
      using Cons.prems(2) same_cs by simp
    from Cons.IH [OF dist op] obtain st' where
      r: "fanout d cs ?st1 = Inr st'"
      and cl: "clients (hub st') = clients (hub ?st1) - {x \<in> set cs. \<not> spare (send (heap ?st1 x))}"
      and br: "broadcast (hub st') = broadcast (hub ?st1)"
      and hp: "\<forall>x. heap st' x =
              (if x \<in> set cs then
                 (if spare (send (heap ?st1 x))
                  then (heap ?st1 x)\<lparr>send := (send (heap ?st1 x))\<lparr>buf := buf (send (heap ?st1 x)) @ [d]\<rparr>\<rparr>
                  else (heap ?st1 x)\<lparr>send := (send (heap ?st1 x))\<lparr>closed := True\<rparr>\<rparr>)
               else heap ?st1 x)"
      and ot: "store st' = store ?st1" "jobs st' = jobs ?st1" "online st' = online ?st1"
      by blast
    have cl': "clients (hub st') = clients (hub st) - {x \<in> set (c # cs). \<not> spare (send (heap st x))}"
      using cl rest(1) same_cs notin False by auto
    have hp': "\<forall>x. heap st' x =
              (if x \<in> set (c # cs) then
                 (if spare (send (heap st x))
                  then (heap st x)\<lparr>send := (send (heap st x))\<lparr>buf := buf (send (heap st x)) @ [d]\<rparr>\<rparr>
                  else (heap st x)\<lparr>send := (send (heap st x))\<lparr>closed := True\<rparr>\<rparr>)
               else heap st x)"
    proof
      fix x
      show "heap st' x =
              (if x \<in> set (c # cs) then
                 (if spare (send (heap st x))
                  then (heap st x)\<lparr>send := (send (heap st x))\<lparr>buf := buf (send (heap st x)) @ [d]\<rparr>\<rparr>
                  else (heap st x)\<lparr>send := (send (heap st x))\<lparr>closed := True\<rparr>\<rparr>)
               else heap st x)"
      proof (cases "x = c")
        case True
        then show ?thesis using hp notin at_c \<open>\<not> spare (send (heap st c))\<close> by simp
      next
        case False
        then show ?thesis using hp same by simp
      qed
    qed
    show ?thesis using step r cl' br hp' ot rest by simp
  qed
qed

text \<open>
  Claim C1. When the hub takes a payload from its broadcast channel, with the live
  connections' queues open and \<open>range\<close> walking the live set in any order, the payload is
  appended once to the queue of every live connection whose queue has spare capacity, and
  these connections stay live; every live connection whose queue is full leaves the live
  set with its queue closed and its content as it was; connections outside the live set
  are untouched.
\<close>

theorem broadcast_reaches_live_set:
  assumes "broadcast (hub st) = d # rest"
    and "distinct order" and "set order = clients (hub st)"
    and "live_open st"
  shows "\<exists>st'. Run_broadcast order st = Some (Inr st') \<and>
           clients (hub st') = {c \<in> clients (hub st). spare (send (heap st c))} \<and>
           (\<forall>c \<in> clients (hub st). spare (send (heap st c)) \<longrightarrow>
              send (heap st' c) = (send (heap st c))\<lparr>buf := buf (send (heap st c)) @ [d]\<rparr>) \<and>
           (\<forall>c \<in> clients (hub st). \<not> spare (send (heap st c)) \<longrightarrow>
              send (heap st' c) = (send (heap st c))\<lparr>closed := True\<rparr>) \<and>
           (\<forall>c. c \<notin> clients (hub st) \<longrightarrow> heap st' c = heap st c) \<and>
           broadcast (hub st') = rest \<and> live_open st'"
proof -
  let ?st0 = "st\<lparr>hub := (hub st)\<lparr>broadcast := rest\<rparr>\<rparr>"
  have run: "Run_broadcast order st = Some (fanout d order ?st0)"
    using assms(1) by (simp add: Run_broadcast_def)
  have op: "\<forall>c \<in> set order. \<not> closed (send (heap ?st0 c))"
    using assms(3,4) by (simp add: live_open_def)
  from fanout_effect [OF assms(2) op, of d] obtain st' where
    r: "fanout d order ?st0 = Inr st'"
    and cl: "clients (hub st') = clients (hub ?st0) - {c \<in> set order. \<not> spare (send (heap ?st0 c))}"
    and br: "broadcast (hub st') = broadcast (hub ?st0)"
    and hp: "\<forall>c. heap st' c =
              (if c \<in> set order then
                 (if spare (send (heap ?st0 c))
                  then (heap ?st0 c)\<lparr>send := (send (heap ?st0 c))\<lparr>buf := buf (send (heap ?st0 c)) @ [d]\<rparr>\<rparr>
                  else (heap ?st0 c)\<lparr>send := (send (heap ?st0 c))\<lparr>closed := True\<rparr>\<rparr>)
               else heap ?st0 c)"
    by blast
  have cl': "clients (hub st') = {c \<in> clients (hub st). spare (send (heap st c))}"
    using cl assms(3) by auto
  have a: "\<forall>c \<in> clients (hub st). spare (send (heap st c)) \<longrightarrow>
              send (heap st' c) = (send (heap st c))\<lparr>buf := buf (send (heap st c)) @ [d]\<rparr>"
    using hp assms(3) by simp
  have b: "\<forall>c \<in> clients (hub st). \<not> spare (send (heap st c)) \<longrightarrow>
              send (heap st' c) = (send (heap st c))\<lparr>closed := True\<rparr>"
    using hp assms(3) by simp
  have c: "\<forall>c. c \<notin> clients (hub st) \<longrightarrow> heap st' c = heap st c"
    using hp assms(3) by simp
  have lo: "live_open st'"
    using cl' a assms(4) by (simp add: live_open_def)
  show ?thesis using run r cl' a b c br lo by simp
qed

lemma crowded_server_facts:
  "broadcast (hub crowded_server) = [System (Joined ''Alice'')]"
  "clients (hub crowded_server) = {1, 2}"
  "spare (send (heap crowded_server 1))"
  "\<not> spare (send (heap crowded_server 2))"
  "\<not> closed (send (heap crowded_server 1))"
  "\<not> closed (send (heap crowded_server 2))"
  "buf (send (heap crowded_server 1)) = []"
  by (simp_all add: crowded_server_def sample_server_def spare_def make_chan_def
        sendBufSize_def full_chan_def newClient_def)

theorem broadcast_reaches_live_set_witness:
  "broadcast (hub crowded_server) = [System (Joined ''Alice'')] \<and>
   distinct [2, 1 :: nat] \<and> set [2, 1] = clients (hub crowded_server) \<and>
   live_open crowded_server \<and>
   (\<exists>st'. Run_broadcast [2, 1] crowded_server = Some (Inr st') \<and>
      clients (hub st') = {1} \<and>
      buf (send (heap st' 1)) = [System (Joined ''Alice'')] \<and>
      closed (send (heap st' 2)))"
proof -
  have d: "distinct [2, 1 :: nat]" by simp
  have s: "set [2, 1] = clients (hub crowded_server)"
    by (auto simp: crowded_server_facts)
  have l: "live_open crowded_server"
    using crowded_server_facts(5,6) by (auto simp: live_open_def crowded_server_facts(2))
  have k: "{c \<in> clients (hub crowded_server). spare (send (heap crowded_server c))} = {1}"
    using crowded_server_facts(3,4) by (auto simp: crowded_server_facts(2))
  from broadcast_reaches_live_set [OF crowded_server_facts(1) d s l]
  obtain st' where r: "Run_broadcast [2, 1] crowded_server = Some (Inr st')"
    and c: "clients (hub st') = {c \<in> clients (hub crowded_server). spare (send (heap crowded_server c))}"
    and a: "\<forall>c \<in> clients (hub crowded_server). spare (send (heap crowded_server c)) \<longrightarrow>
              send (heap st' c) = (send (heap crowded_server c))\<lparr>buf := buf (send (heap crowded_server c)) @ [System (Joined ''Alice'')]\<rparr>"
    and b: "\<forall>c \<in> clients (hub crowded_server). \<not> spare (send (heap crowded_server c)) \<longrightarrow>
              send (heap st' c) = (send (heap crowded_server c))\<lparr>closed := True\<rparr>"
    by blast
  have "buf (send (heap st' 1)) = [System (Joined ''Alice'')]"
    using a crowded_server_facts by simp
  moreover have "closed (send (heap st' 2))"
    using b crowded_server_facts by simp
  ultimately show ?thesis using d s l r c k crowded_server_facts(1) by auto
qed

text \<open>The other cases of the select keep the queues of the live connections open.\<close>

lemma live_open_Run_register:
  "live_open st \<Longrightarrow> \<not> closed (send (heap st c)) \<Longrightarrow> live_open (Run_register c st)"
  by (simp add: live_open_def Run_register_def logPrintf_def)

lemma live_open_Run_unregister:
  "live_open st \<Longrightarrow> \<exists>st'. Run_unregister c st = Inr st' \<and> live_open st' \<and> c \<notin> clients (hub st')"
  by (auto simp: live_open_def Run_unregister_def closeChan_def logPrintf_def setSend_def
        deleteClient_def)

section \<open>The handlers\<close>

subsection \<open>Requests before authentication\<close>

lemma handlePacket_unauthenticated:
  assumes "\<not> isAuthenticated (heap st c)"
    and "Type pkt \<in> {''chat'', ''search'', ''history'', ''users''}"
  shows "handlePacket L E c pkt st =
           sendPacket c (Response False
             (ErrorPrefix (if Type pkt = ''chat'' then MustLoginOrRegister else MustLogin)) None) st"
  using assms
  by (auto simp: handlePacket_def handleChat_def handleSearch_def handleHistory_def
        handleUsers_def sendError_def)

text \<open>
  Claim C8. A chat, search, history or users packet of a connection that has not
  authenticated does nothing but send that connection an error response (success false,
  no data) through \<open>sendPacket\<close>: whenever the handler returns, the store, the online index,
  the hub (its live set and its pending broadcasts), the job queue and every other
  connection are as before; and on an open queue the handler returns, with the response
  appended when the queue has spare capacity.
\<close>

theorem unauthenticated_rejected:
  assumes "\<not> isAuthenticated (heap st c)"
    and "Type pkt \<in> {''chat'', ''search'', ''history'', ''users''}"
  shows "handlePacket L E c pkt st =
           sendPacket c (Response False
             (ErrorPrefix (if Type pkt = ''chat'' then MustLoginOrRegister else MustLogin)) None) st \<and>
         (\<forall>st'. handlePacket L E c pkt st = Inr st' \<longrightarrow>
            store st' = store st \<and> online st' = online st \<and> hub st' = hub st \<and>
            jobs st' = jobs st \<and> (\<forall>x. x \<noteq> c \<longrightarrow> heap st' x = heap st x) \<and>
            userID (heap st' c) = userID (heap st c)) \<and>
         (\<not> closed (send (heap st c)) \<longrightarrow>
            (\<exists>st'. handlePacket L E c pkt st = Inr st' \<and>
               send (heap st' c) =
                 (if spare (send (heap st c))
                  then (send (heap st c))\<lparr>buf := buf (send (heap st c)) @
                         [Response False
                            (ErrorPrefix (if Type pkt = ''chat'' then MustLoginOrRegister else MustLogin))
                            None]\<rparr>
                  else send (heap st c))))"
proof -
  let ?r = "Response False
             (ErrorPrefix (if Type pkt = ''chat'' then MustLoginOrRegister else MustLogin)) None"
  have e: "handlePacket L E c pkt st = sendPacket c ?r st"
    using assms by (rule handlePacket_unauthenticated)
  have f: "\<forall>st'. handlePacket L E c pkt st = Inr st' \<longrightarrow>
            store st' = store st \<and> online st' = online st \<and> hub st' = hub st \<and>
            jobs st' = jobs st \<and> (\<forall>x. x \<noteq> c \<longrightarrow> heap st' x = heap st x) \<and>
            userID (heap st' c) = userID (heap st c)"
  proof (intro allI impI)
    fix st'
    assume "handlePacket L E c pkt st = Inr st'"
    then have "sendPacket c ?r st = Inr st'" using e by simp
    from sendPacket_frame [OF this]
    show "store st' = store st \<and> online st' = online st \<and> hub st' = hub st \<and>
            jobs st' = jobs st \<and> (\<forall>x. x \<noteq> c \<longrightarrow> heap st' x = heap st x) \<and>
            userID (heap st' c) = userID (heap st c)"
      by simp
  qed
  have g: "\<not> closed (send (heap st c)) \<longrightarrow>
            (\<exists>st'. handlePacket L E c pkt st = Inr st' \<and>
               send (heap st' c) =
                 (if spare (send (heap st c))
                  then (send (heap st c))\<lparr>buf := buf (send (heap st c)) @ [?r]\<rparr>
                  else send (heap st c)))"
  proof
    assume "\<not> closed (send (heap st c))"
    from sendPacket_open [OF this, of ?r]
    show "\<exists>st'. handlePacket L E c pkt st = Inr st' \<and>
               send (heap st' c) =
                 (if spare (send (heap st c))
                  then (send (heap st c))\<lparr>buf := buf (send (heap st c)) @ [?r]\<rparr>
                  else send (heap st c))"
      unfolding e .
  qed
  show ?thesis by (rule conjI [OF e conjI [OF f g]])
qed

lemma sample_client2:
  "\<not> isAuthenticated (heap sample_server 2)"
  "\<not> closed (send (heap sample_server 2))"
  "spare (send (heap sample_server 2))"
  "buf (send (heap sample_server 2)) = []"
  by (simp_all add: sample_server_def newClient_def isAuthenticated_def make_chan_def
        spare_def sendBufSize_def)

theorem unauthenticated_rejected_witness:
  "\<not> isAuthenticated (heap sample_server 2) \<and>
   Type \<lparr>Type = ''chat'', Payload = hi_chat\<rparr> \<in> {''chat'', ''search'', ''history'', ''users''} \<and>
   \<not> closed (send (heap sample_server 2)) \<and>
   (\<exists>st'. handlePacket sample_lib sample_env 2 \<lparr>Type = ''chat'', Payload = hi_chat\<rparr> sample_server
            = Inr st' \<and>
      buf (send (heap st' 2)) = [Response False (ErrorPrefix MustLoginOrRegister) None] \<and>
      store st' = store sample_server \<and> online st' = online sample_server \<and>
      hub st' = hub sample_server)"
proof -
  let ?p = "\<lparr>Type = ''chat'', Payload = hi_chat\<rparr>"
  have t: "Type ?p \<in> {''chat'', ''search'', ''history'', ''users''}" by simp
  from unauthenticated_rejected [OF sample_client2(1) t, of sample_lib sample_env]
  obtain st' where r: "handlePacket sample_lib sample_env 2 ?p sample_server = Inr st'"
    and q: "send (heap st' 2) =
                 (if spare (send (heap sample_server 2))
                  then (send (heap sample_server 2))\<lparr>buf := buf (send (heap sample_server 2)) @
                         [Response False
                            (ErrorPrefix (if Type ?p = ''chat'' then MustLoginOrRegister else MustLogin))
                            None]\<rparr>
                  else send (heap sample_server 2))"
    and f: "store st' = store sample_server \<and> online st' = online sample_server \<and>
            hub st' = hub sample_server"
    using sample_client2(2) by blast
  have "buf (send (heap st' 2)) = [Response False (ErrorPrefix MustLoginOrRegister) None]"
    using q sample_client2(3,4) by simp
  then show ?thesis using r f t sample_client2(1,2) by blast
qed

subsection \<open>Chat\<close>

lemma submit_open:
  assumes "\<not> closed (jobs st)"
  shows "submit msg st =
           Inr (if spare (jobs st) then st\<lparr>jobs := (jobs st)\<lparr>buf := buf (jobs st) @ [msg]\<rparr>\<rparr>
                else logPrintf PoolQueueFull st)"
  using assms by (simp add: submit_def trySend_def spare_def)

lemma handleChat_room:
  assumes "isAuthenticated (heap st c)" and "asChat raw = Some p" and "cContent p \<noteq> []"
    and "\<not> closed (jobs st)" and "length (broadcast (hub st)) < broadcastSize"
  shows "handleChat t c raw st =
           Inr (let msg = \<lparr>mID = decimal t, mUserID = userID (heap st c),
                            mUsername = username (heap st c), Content = cContent p, Timestamp = t\<rparr>;
                    st1 = st\<lparr>hub := (hub st)\<lparr>broadcast := broadcast (hub st) @
                            [Broadcast (userID (heap st c)) (username (heap st c)) (cContent p) t]\<rparr>\<rparr>
                in if spare (jobs st) then st1\<lparr>jobs := (jobs st)\<lparr>buf := buf (jobs st) @ [msg]\<rparr>\<rparr>
                   else logPrintf PoolQueueFull st1)"
proof -
  let ?msg = "\<lparr>mID = decimal t, mUserID = userID (heap st c), mUsername = username (heap st c),
                  Content = cContent p, Timestamp = t\<rparr>"
  let ?st1 = "st\<lparr>hub := (hub st)\<lparr>broadcast := broadcast (hub st) @
                [Broadcast (userID (heap st c)) (username (heap st c)) (cContent p) t]\<rparr>\<rparr>"
  have h: "handleChat t c raw st = submit ?msg ?st1"
    using assms(1-3,5) by (simp add: handleChat_def Let_def sendBroadcast_def runAfter_def)
  have j: "jobs ?st1 = jobs st" by simp
  have s: "submit ?msg ?st1 =
           Inr (if spare (jobs st) then ?st1\<lparr>jobs := (jobs st)\<lparr>buf := buf (jobs st) @ [?msg]\<rparr>\<rparr>
                else logPrintf PoolQueueFull ?st1)"
    using submit_open [of ?st1 ?msg] assms(4) j by simp
  show ?thesis unfolding h s by (simp add: Let_def)
qed

lemma handleChat_parked:
  assumes "isAuthenticated (heap st c)" and "asChat raw = Some p" and "cContent p \<noteq> []"
    and "\<not> length (broadcast (hub st)) < broadcastSize"
  shows "handleChat t c raw st =
           Inr ((st\<lparr>hub := (hub st)\<lparr>broadcast := broadcast (hub st) @
                    [Broadcast (userID (heap st c)) (username (heap st c)) (cContent p) t]\<rparr>\<rparr>)
                  \<lparr>waiting := waiting st @
                     [(c, ThenSubmit \<lparr>mID = decimal t, mUserID = userID (heap st c),
                                      mUsername = username (heap st c), Content = cContent p,
                                      Timestamp = t\<rparr>)]\<rparr>)"
  using assms by (simp add: handleChat_def Let_def sendBroadcast_def)

lemma resume_submit:
  assumes "waiting st = (c, ThenSubmit msg) # ws"
    and "length (broadcast (hub st)) < broadcastSize + length (waiting st)"
    and "\<not> closed (jobs st)"
  shows "resume st =
           Some (Inr (if spare (jobs st)
                      then st\<lparr>waiting := ws, jobs := (jobs st)\<lparr>buf := buf (jobs st) @ [msg]\<rparr>\<rparr>
                      else logPrintf PoolQueueFull (st\<lparr>waiting := ws\<rparr>)))"
proof -
  have r: "resume st = Some (submit msg (st\<lparr>waiting := ws\<rparr>))"
    using assms(1,2) by (simp add: resume_def runAfter_def)
  have "\<not> closed (jobs (st\<lparr>waiting := ws\<rparr>))" using assms(3) by simp
  from submit_open [OF this, of msg] show ?thesis unfolding r by simp
qed

text \<open>
  Claim C2. A chat packet with non-empty content from an authenticated connection, on a
  server whose pool has not been stopped, hands exactly one broadcast of the message to
  the hub's channel, after the payloads already there, and it does so before the job is
  submitted and whatever becomes of the job. No error response is sent (no queue of any
  connection changes), and the store, the online index and the live set are left alone.

  With room on the hub's channel the handler returns: the job is at the end of the job
  queue when that has spare capacity, and otherwise the job is dropped and that is
  logged; the hub's channel is the same in both cases. With the hub's channel full the
  handler is parked inside its send, the job not yet submitted, and the job queue and the
  log are as before.

  A parked handler whose payload the channel has taken goes on with the submission and
  returns, whether the job queue takes the job or is at capacity, without touching the
  hub again.
\<close>

theorem chat_always_broadcast:
  assumes "isAuthenticated (heap st c)" and "asChat raw = Some p" and "cContent p \<noteq> []"
    and "\<not> closed (jobs st)"
  shows "(\<exists>st'. handleChat t c raw st = Inr st' \<and>
           broadcast (hub st') = broadcast (hub st) @
             [Broadcast (userID (heap st c)) (username (heap st c)) (cContent p) t] \<and>
           clients (hub st') = clients (hub st) \<and> heap st' = heap st \<and>
           store st' = store st \<and> online st' = online st \<and>
           (length (broadcast (hub st)) < broadcastSize \<longrightarrow>
              waiting st' = waiting st \<and>
              (spare (jobs st) \<longrightarrow>
                 buf (jobs st') = buf (jobs st) @
                   [\<lparr>mID = decimal t, mUserID = userID (heap st c), mUsername = username (heap st c),
                     Content = cContent p, Timestamp = t\<rparr>] \<and> logs st' = logs st) \<and>
              (\<not> spare (jobs st) \<longrightarrow> jobs st' = jobs st \<and> logs st' = logs st @ [PoolQueueFull])) \<and>
           (\<not> length (broadcast (hub st)) < broadcastSize \<longrightarrow>
              waiting st' = waiting st @
                [(c, ThenSubmit \<lparr>mID = decimal t, mUserID = userID (heap st c),
                                 mUsername = username (heap st c), Content = cContent p,
                                 Timestamp = t\<rparr>)] \<and>
              jobs st' = jobs st \<and> logs st' = logs st)) \<and>
         (\<forall>(st2::Server) msg ws.
            waiting st2 = (c, ThenSubmit msg) # ws \<and>
            length (broadcast (hub st2)) < broadcastSize + length (waiting st2) \<and>
            \<not> closed (jobs st2) \<longrightarrow>
            (\<exists>st3. resume st2 = Some (Inr st3) \<and> waiting st3 = ws \<and>
               hub st3 = hub st2 \<and> heap st3 = heap st2 \<and> store st3 = store st2 \<and>
               online st3 = online st2 \<and>
               (spare (jobs st2) \<longrightarrow>
                  buf (jobs st3) = buf (jobs st2) @ [msg] \<and> logs st3 = logs st2) \<and>
               (\<not> spare (jobs st2) \<longrightarrow>
                  jobs st3 = jobs st2 \<and> logs st3 = logs st2 @ [PoolQueueFull])))"
proof -
  let ?msg = "\<lparr>mID = decimal t, mUserID = userID (heap st c), mUsername = username (heap st c),
                  Content = cContent p, Timestamp = t\<rparr>"
  let ?b = "Broadcast (userID (heap st c)) (username (heap st c)) (cContent p) t"
  let ?P = "\<lambda>st'. handleChat t c raw st = Inr st' \<and>
           broadcast (hub st') = broadcast (hub st) @ [?b] \<and>
           clients (hub st') = clients (hub st) \<and> heap st' = heap st \<and>
           store st' = store st \<and> online st' = online st \<and>
           (length (broadcast (hub st)) < broadcastSize \<longrightarrow>
              waiting st' = waiting st \<and>
              (spare (jobs st) \<longrightarrow> buf (jobs st') = buf (jobs st) @ [?msg] \<and> logs st' = logs st) \<and>
              (\<not> spare (jobs st) \<longrightarrow> jobs st' = jobs st \<and> logs st' = logs st @ [PoolQueueFull])) \<and>
           (\<not> length (broadcast (hub st)) < broadcastSize \<longrightarrow>
              waiting st' = waiting st @ [(c, ThenSubmit ?msg)] \<and>
              jobs st' = jobs st \<and> logs st' = logs st)"
  have a: "\<exists>st'. ?P st'"
  proof (cases "length (broadcast (hub st)) < broadcastSize")
    case room: True
    show ?thesis
    proof (cases "spare (jobs st)")
      case True
      have "?P ((st\<lparr>hub := (hub st)\<lparr>broadcast := broadcast (hub st) @ [?b]\<rparr>\<rparr>)\<lparr>jobs := (jobs st)\<lparr>buf := buf (jobs st) @ [?msg]\<rparr>\<rparr>)"
        using handleChat_room [OF assms room, of t] True room
        by (simp add: Let_def)
      then show ?thesis by (rule exI [of ?P])
    next
      case False
      have "?P (logPrintf PoolQueueFull (st\<lparr>hub := (hub st)\<lparr>broadcast := broadcast (hub st) @ [?b]\<rparr>\<rparr>))"
        using handleChat_room [OF assms room, of t] False room
        by (simp add: Let_def logPrintf_def)
      then show ?thesis by (rule exI [of ?P])
    qed
  next
    case False
    have "?P ((st\<lparr>hub := (hub st)\<lparr>broadcast := broadcast (hub st) @ [?b]\<rparr>\<rparr>)\<lparr>waiting := waiting st @ [(c, ThenSubmit ?msg)]\<rparr>)"
      using handleChat_parked [OF assms(1-3) False, of t] False
      by simp
    then show ?thesis by (rule exI [of ?P])
  qed
  have b: "\<forall>(st2::Server) msg ws.
            waiting st2 = (c, ThenSubmit msg) # ws \<and>
            length (broadcast (hub st2)) < broadcastSize + length (waiting st2) \<and>
            \<not> closed (jobs st2) \<longrightarrow>
            (\<exists>st3. resume st2 = Some (Inr st3) \<and> waiting st3 = ws \<and>
               hub st3 = hub st2 \<and> heap st3 = heap st2 \<and> store st3 = store st2 \<and>
               online st3 = online st2 \<and>
               (spare (jobs st2) \<longrightarrow>
                  buf (jobs st3) = buf (jobs st2) @ [msg] \<and> logs st3 = logs st2) \<and>
               (\<not> spare (jobs st2) \<longrightarrow>
                  jobs st3 = jobs st2 \<and> logs st3 = logs st2 @ [PoolQueueFull]))"
  proof (intro allI impI)
    fix st2 :: Server and msg ws
    assume h: "waiting st2 = (c, ThenSubmit msg) # ws \<and>
            length (broadcast (hub st2)) < broadcastSize + length (waiting st2) \<and>
            \<not> closed (jobs st2)"
    note r = resume_submit [OF h [THEN conjunct1] h [THEN conjunct2, THEN conjunct1]
                h [THEN conjunct2, THEN conjunct2]]
    show "\<exists>st3. resume st2 = Some (Inr st3) \<and> waiting st3 = ws \<and>
               hub st3 = hub st2 \<and> heap st3 = heap st2 \<and> store st3 = store st2 \<and>
               online st3 = online st2 \<and>
               (spare (jobs st2) \<longrightarrow>
                  buf (jobs st3) = buf (jobs st2) @ [msg] \<and> logs st3 = logs st2) \<and>
               (\<not> spare (jobs st2) \<longrightarrow>
                  jobs st3 = jobs st2 \<and> logs st3 = logs st2 @ [PoolQueueFull])"
      unfolding r by (simp add: logPrintf_def)
  qed
  show ?thesis by (rule conjI [OF a b])
qed

lemma saturated_server_facts:
  "isAuthenticated (heap saturated_server 1)"
  "\<not> closed (jobs saturated_server)"
  "\<not> spare (jobs saturated_server)"
  "broadcast (hub saturated_server) = []"
  "userID (heap saturated_server 1) = ''1-0001''"
  "username (heap saturated_server 1) = ''Alice''"
  "logs saturated_server = []"
  "waiting saturated_server = []"
  by (simp_all add: saturated_server_def sample_server_def isAuthenticated_def spare_def)

lemma jammed_server_facts:
  "isAuthenticated (heap jammed_server 1)"
  "\<not> closed (jobs jammed_server)"
  "\<not> length (broadcast (hub jammed_server)) < broadcastSize"
  "userID (heap jammed_server 1) = ''1-0001''"
  "username (heap jammed_server 1) = ''Alice''"
  "logs jammed_server = []"
  "waiting jammed_server = []"
  "buf (jobs jammed_server) = []"
  by (simp_all add: jammed_server_def sample_server_def isAuthenticated_def broadcastSize_def
        make_chan_def)

lemma parked_server_facts:
  "waiting parked_server = [(1, ThenSubmit hi_message)]"
  "length (broadcast (hub parked_server)) < broadcastSize + length (waiting parked_server)"
  "\<not> closed (jobs parked_server)"
  "spare (jobs parked_server)"
  "buf (jobs parked_server) = []"
  "logs parked_server = []"
  by (simp_all add: parked_server_def jammed_server_def sample_server_def broadcastSize_def
        make_chan_def spare_def jobsSize_def)

theorem chat_always_broadcast_witness:
  "isAuthenticated (heap saturated_server 1) \<and> asChat hi_chat = Some \<lparr>cContent = ''hi''\<rparr> \<and>
   cContent \<lparr>cContent = ''hi''\<rparr> \<noteq> [] \<and> \<not> closed (jobs saturated_server) \<and>
   length (broadcast (hub saturated_server)) < broadcastSize \<and>
   \<not> spare (jobs saturated_server) \<and>
   (\<exists>st'. handleChat 5 1 hi_chat saturated_server = Inr st' \<and>
      broadcast (hub st') = [Broadcast ''1-0001'' ''Alice'' ''hi'' 5] \<and>
      jobs st' = jobs saturated_server \<and> logs st' = [PoolQueueFull] \<and>
      heap st' = heap saturated_server \<and> waiting st' = []) \<and>
   isAuthenticated (heap jammed_server 1) \<and> \<not> closed (jobs jammed_server) \<and>
   \<not> length (broadcast (hub jammed_server)) < broadcastSize \<and>
   (\<exists>st'. handleChat 5 1 hi_chat jammed_server = Inr st' \<and>
      broadcast (hub st') = broadcast (hub jammed_server) @ [Broadcast ''1-0001'' ''Alice'' ''hi'' 5] \<and>
      waiting st' = [(1, ThenSubmit hi_message)] \<and>
      jobs st' = jobs jammed_server \<and> logs st' = []) \<and>
   waiting parked_server = [(1, ThenSubmit hi_message)] \<and>
   length (broadcast (hub parked_server)) < broadcastSize + length (waiting parked_server) \<and>
   \<not> closed (jobs parked_server) \<and> spare (jobs parked_server) \<and>
   (\<exists>st3. resume parked_server = Some (Inr st3) \<and> waiting st3 = [] \<and>
      hub st3 = hub parked_server \<and> buf (jobs st3) = [hi_message] \<and> logs st3 = [])"
proof -
  have a: "asChat hi_chat = Some \<lparr>cContent = ''hi''\<rparr>"
    by (simp add: hi_chat_def no_payload_def)
  have n: "cContent \<lparr>cContent = ''hi''\<rparr> \<noteq> []" by simp
  have r: "length (broadcast (hub saturated_server)) < broadcastSize"
    by (simp add: saturated_server_facts(4) broadcastSize_def)
  note t1 = chat_always_broadcast [OF saturated_server_facts(1) a n saturated_server_facts(2),
              of 5, THEN conjunct1]
  note t2 = chat_always_broadcast [OF jammed_server_facts(1) a n jammed_server_facts(2),
              of 5, THEN conjunct1]
  note t3 = chat_always_broadcast [OF saturated_server_facts(1) a n saturated_server_facts(2),
              of 5, THEN conjunct2, rule_format, of parked_server hi_message "[]"]
  from t1 r saturated_server_facts(3)
  obtain s1 where s1: "handleChat 5 1 hi_chat saturated_server = Inr s1"
    "broadcast (hub s1) = broadcast (hub saturated_server) @
       [Broadcast (userID (heap saturated_server 1)) (username (heap saturated_server 1))
          (cContent \<lparr>cContent = ''hi''\<rparr>) 5]"
    "heap s1 = heap saturated_server"
    "waiting s1 = waiting saturated_server"
    "jobs s1 = jobs saturated_server" "logs s1 = logs saturated_server @ [PoolQueueFull]"
    by blast
  have c1: "\<exists>st'. handleChat 5 1 hi_chat saturated_server = Inr st' \<and>
      broadcast (hub st') = [Broadcast ''1-0001'' ''Alice'' ''hi'' 5] \<and>
      jobs st' = jobs saturated_server \<and> logs st' = [PoolQueueFull] \<and>
      heap st' = heap saturated_server \<and> waiting st' = []"
    using s1 saturated_server_facts(4-8) by simp
  from t2 jammed_server_facts(3)
  obtain s2 where s2: "handleChat 5 1 hi_chat jammed_server = Inr s2"
    "broadcast (hub s2) = broadcast (hub jammed_server) @
       [Broadcast (userID (heap jammed_server 1)) (username (heap jammed_server 1))
          (cContent \<lparr>cContent = ''hi''\<rparr>) 5]"
    "waiting s2 = waiting jammed_server @
                [(1, ThenSubmit \<lparr>mID = decimal 5, mUserID = userID (heap jammed_server 1),
                                 mUsername = username (heap jammed_server 1),
                                 Content = cContent \<lparr>cContent = ''hi''\<rparr>, Timestamp = 5\<rparr>)]"
    "jobs s2 = jobs jammed_server" "logs s2 = logs jammed_server"
    by blast
  have c2: "\<exists>st'. handleChat 5 1 hi_chat jammed_server = Inr st' \<and>
      broadcast (hub st') = broadcast (hub jammed_server) @ [Broadcast ''1-0001'' ''Alice'' ''hi'' 5] \<and>
      waiting st' = [(1, ThenSubmit hi_message)] \<and>
      jobs st' = jobs jammed_server \<and> logs st' = []"
    using s2 jammed_server_facts(4-7) by (simp add: hi_message_def)
  from t3 parked_server_facts(1-4)
  obtain s3 where s3: "resume parked_server = Some (Inr s3)" "waiting s3 = []"
    "hub s3 = hub parked_server" "buf (jobs s3) = buf (jobs parked_server) @ [hi_message]"
    "logs s3 = logs parked_server"
    by blast
  have c3: "\<exists>st3. resume parked_server = Some (Inr st3) \<and> waiting st3 = [] \<and>
      hub st3 = hub parked_server \<and> buf (jobs st3) = [hi_message] \<and> logs st3 = []"
    using s3 parked_server_facts(5,6) by simp
  show ?thesis
    by (intro conjI c1 c2 c3 a n r saturated_server_facts(1-3) jammed_server_facts(1-3)
          parked_server_facts(1-4))
qed

section \<open>The online index\<close>











text \<open>
  When the second connection then goes away, \<open>removeOnline\<close> deletes the entry of the
  account although the first connection is still authenticated and live: the index is
  empty.
\<close>

lemma disconnect_forgets_account:
  "case readPumpExit 2 second_login of
     Inl _ \<Rightarrow> False
   | Inr st' \<Rightarrow> online st' = Map.empty \<and> isAuthenticated (heap st' 1) \<and> 1 \<in> clients (hub st')"
  by (simp add: readPumpExit_def Run_unregister_def closeChan_def second_login_def
        sample_server_def removeOnline_def closeConn_def setSend_def deleteClient_def
        logPrintf_def isAuthenticated_def)

end
